theory Spec2Isabelle
  imports Main "HOL-Library.Sublist"
begin

section \<open>Strings and the pattern text of a date format\<close>

text \<open>
  A string is a list of characters; every operation of the plugin on strings works
  unit by unit (literal comparison, the digit class), so one \<open>char\<close> stands for one
  code unit of the JavaScript string.
\<close>

definition bslash :: char where
  "bslash = CHR 0x5C"

definition is_digit :: "char \<Rightarrow> bool" where
  "is_digit c \<longleftrightarrow> c \<in> set ''0123456789''"

text \<open>The character class \<^verbatim>\<open>[.*+?^${}()|[\]\\]\<close> of line 98.\<close>

definition special :: "char \<Rightarrow> bool" where
  "special c \<longleftrightarrow> c \<in> set ''.*+?^${}()|[]'' \<or> c = bslash"

text \<open>
  \<^verbatim>\<open>format.replace(/[.*+?^${}()|[\]\\]/g, '\\$&')\<close>: every special character gets a
  backslash in front of it.
\<close>

primrec escape_special :: "string \<Rightarrow> string" where
  "escape_special [] = []"
| "escape_special (c # cs) =
     (if special c then bslash # c # escape_special cs else c # escape_special cs)"

text \<open>
  \<^verbatim>\<open>s.replace(/pat/g, rep)\<close> for a literal, non-empty \<open>pat\<close> and a replacement text free
  of \<^verbatim>\<open>$\<close>: scan from the left, replace each occurrence and continue after it.
\<close>

function replace_all :: "string \<Rightarrow> string \<Rightarrow> string \<Rightarrow> string" where
  "replace_all pat rep [] = []"
| "replace_all pat rep (c # cs) =
     (if pat \<noteq> [] \<and> prefix pat (c # cs)
      then rep @ replace_all pat rep (drop (length pat) (c # cs))
      else c # replace_all pat rep cs)"
  by pat_completeness auto
termination
  by (relation "measure (\<lambda>(pat, rep, s). length s)") auto

definition digits4 :: string where
  "digits4 = bslash # ''d{4}''"

definition digits2 :: string where
  "digits2 = bslash # ''d{2}''"

definition digits12 :: string where
  "digits12 = bslash # ''d{1,2}''"

text \<open>The text handed to \<^verbatim>\<open>new RegExp\<close> (the variable \<^verbatim>\<open>pattern\<close>, lines 98 to 107).\<close>

definition datePatternSource :: "string \<Rightarrow> string" where
  "datePatternSource format =
     (let pattern = escape_special format;
          pattern = replace_all ''YYYY'' digits4 pattern;
          pattern = replace_all ''YY'' digits2 pattern;
          pattern = replace_all ''MM'' digits2 pattern;
          pattern = replace_all ''M'' digits12 pattern;
          pattern = replace_all ''DD'' digits2 pattern;
          pattern = replace_all ''D'' digits12 pattern
      in pattern)"

section \<open>The regular expressions the plugin builds\<close>

text \<open>
  The fragment of the pattern language: a sequence of pieces, each a one-character atom
  (a literal character or the digit class \<^verbatim>\<open>\d\<close>) repeated greedily between \<open>lo\<close> and
  \<open>hi\<close> times. There is no anchor, group, alternative or class in the fragment.
\<close>

datatype atom = Chr char | Digit

datatype piece = Piece atom nat nat

type_synonym regexp = "piece list"

datatype error = SyntaxError

definition digit_val :: "char \<Rightarrow> nat" where
  "digit_val c = of_char c - 48"

definition dec_value :: "string \<Rightarrow> nat" where
  "dec_value s = foldl (\<lambda>a c. 10 * a + digit_val c) 0 s"

text \<open>
  One atom: a character that is not special stands for itself, a backslash followed by a
  special character stands for that character, and \<^verbatim>\<open>\d\<close> is the digit class. Any other
  beginning is outside the fragment.
\<close>

definition parse_atom :: "string \<Rightarrow> (atom \<times> string) option" where
  "parse_atom s =
     (case s of
        [] \<Rightarrow> None
      | c # cs \<Rightarrow>
          if c = bslash then
            (case cs of
               [] \<Rightarrow> None
             | e # r \<Rightarrow>
                 if e = CHR ''d'' then Some (Digit, r)
                 else if special e then Some (Chr e, r)
                 else None)
          else if special c then None
          else Some (Chr c, cs))"

text \<open>A decimal number: one digit or more.\<close>

definition read_number :: "string \<Rightarrow> (nat \<times> string) option" where
  "read_number s =
     (if takeWhile is_digit s = [] then None
      else Some (dec_value (takeWhile is_digit s), dropWhile is_digit s))"

text \<open>The quantifiers \<^verbatim>\<open>{n}\<close> and \<^verbatim>\<open>{n,m}\<close>; no quantifier means exactly once.\<close>

definition parse_quantifier :: "string \<Rightarrow> ((nat \<times> nat) \<times> string) option" where
  "parse_quantifier s =
     (case s of
        [] \<Rightarrow> Some ((1, 1), [])
      | c # r \<Rightarrow>
          if c = CHR ''{'' then
            (case read_number r of
               None \<Rightarrow> None
             | Some (n, r1) \<Rightarrow>
                 (case r1 of
                    [] \<Rightarrow> None
                  | x # r2 \<Rightarrow>
                      if x = CHR ''}'' then Some ((n, n), r2)
                      else if x = CHR '','' then
                        (case read_number r2 of
                           None \<Rightarrow> None
                         | Some (m, r3) \<Rightarrow>
                             (case r3 of
                                [] \<Rightarrow> None
                              | y # r4 \<Rightarrow>
                                  if y = CHR ''}'' \<and> n \<le> m then Some ((n, m), r4)
                                  else None))
                      else None))
          else Some ((1, 1), c # r))"

lemma parse_atom_shorter:
  "parse_atom s = Some (a, r) \<Longrightarrow> length r < length s"
  by (auto simp: parse_atom_def split: list.splits if_splits)

lemma read_number_not_longer:
  "read_number s = Some (n, r) \<Longrightarrow> length r \<le> length s"
  by (auto simp: read_number_def length_dropWhile_le split: if_splits)

lemma parse_quantifier_not_longer:
  assumes "parse_quantifier s = Some (q, r)"
  shows "length r \<le> length s"
proof (cases s)
  case Nil
  with assms show ?thesis by (simp add: parse_quantifier_def)
next
  case (Cons c t)
  show ?thesis
  proof (cases "c = CHR ''{''")
    case False
    with assms Cons show ?thesis by (simp add: parse_quantifier_def)
  next
    case True
    from assms Cons True obtain n x r2 where
      n: "read_number t = Some (n, x # r2)" and
      r: "r = r2 \<or> (\<exists>m y. read_number r2 = Some (m, y # r))"
      by (auto simp: parse_quantifier_def split: option.splits list.splits if_splits)
    from n have "length r2 < length t"
      using read_number_not_longer by fastforce
    moreover have "length r \<le> length r2"
      using r read_number_not_longer by fastforce
    ultimately show ?thesis using Cons by simp
  qed
qed

text \<open>
  \<^verbatim>\<open>new RegExp(text)\<close>, on the fragment. \<open>None\<close> stands for a text outside the fragment,
  which holds every text the constructor rejects.
\<close>

function parse_pieces :: "string \<Rightarrow> regexp option" where
  "parse_pieces [] = Some []"
| "parse_pieces (c # cs) =
     (case parse_atom (c # cs) of
        None \<Rightarrow> None
      | Some (a, r) \<Rightarrow>
          (case parse_quantifier r of
             None \<Rightarrow> None
           | Some ((lo, hi), r') \<Rightarrow> map_option ((#) (Piece a lo hi)) (parse_pieces r')))"
  by pat_completeness auto
termination
proof (relation "measure length")
  show "wf (measure length)" by simp
next
  fix c cs x2 a r y q r' lo hi
  assume "parse_atom (c # cs) = Some x2" "(a, r) = x2"
         "parse_quantifier r = Some y" "(q, r') = y" "(lo, hi) = q"
  then have "length r < length (c # cs)" "length r' \<le> length r"
    using parse_atom_shorter parse_quantifier_not_longer by metis+
  then show "(r', c # cs) \<in> measure length" by simp
qed

definition RegExp :: "string \<Rightarrow> error + regexp" where
  "RegExp text = (case parse_pieces text of None \<Rightarrow> Inl SyntaxError | Some r \<Rightarrow> Inr r)"

text \<open>\<^verbatim>\<open>createDatePatternFromFormat\<close>, lines 96 to 110.\<close>

definition createDatePatternFromFormat :: "string \<Rightarrow> error + regexp" where
  "createDatePatternFromFormat format = RegExp (datePatternSource format)"

subsection \<open>Matching\<close>

fun atom_matches :: "atom \<Rightarrow> char \<Rightarrow> bool" where
  "atom_matches (Chr c) x = (x = c)"
| "atom_matches Digit x = is_digit x"

fun first_some :: "'a option list \<Rightarrow> 'a option" where
  "first_some [] = None"
| "first_some (None # xs) = first_some xs"
| "first_some (Some x # xs) = Some x"

text \<open>
  The backtracking matcher at a fixed start: a greedy piece first tries its largest
  count, then the rest of the pattern, and falls back to a smaller count when the rest
  fails. The result is the number of characters of the first match found.
\<close>

fun match_here :: "regexp \<Rightarrow> string \<Rightarrow> nat option" where
  "match_here [] s = Some 0"
| "match_here (Piece a lo hi # ps) s =
     first_some
       (map (\<lambda>k. if k \<le> length s \<and> list_all (atom_matches a) (take k s)
                 then map_option (\<lambda>n. k + n) (match_here ps (drop k s))
                 else None)
            (rev [lo..<Suc hi]))"

text \<open>
  \<^verbatim>\<open>regexp.exec(s)\<close> of a pattern without flags: the start positions are tried from the
  left, the end of the string included; the result is the index and the length of the
  match.
\<close>

definition exec :: "regexp \<Rightarrow> string \<Rightarrow> (nat \<times> nat) option" where
  "exec r s =
     first_some (map (\<lambda>i. map_option (Pair i) (match_here r (drop i s))) [0..<Suc (length s)])"

definition test :: "regexp \<Rightarrow> string \<Rightarrow> bool" where
  "test r s \<longleftrightarrow> exec r s \<noteq> None"

text \<open>\<^verbatim>\<open>s.match(regexp)\<close> without the global flag: element 0 is the matched substring.\<close>

definition match0 :: "string \<Rightarrow> regexp \<Rightarrow> string option" where
  "match0 s r = map_option (\<lambda>(i, n). take n (drop i s)) (exec r s)"

text \<open>
  The replacement text of \<^verbatim>\<open>String.prototype.replace\<close> is a template: \<^verbatim>\<open>$$\<close> stands for a
  dollar sign, \<^verbatim>\<open>$&\<close> for the matched substring, \<^verbatim>\<open>$`\<close> for the part of the string before
  the match and \<^verbatim>\<open>$'\<close> for the part after it. The patterns here have no capture group, so
  a dollar sign before any other character stands for itself.
\<close>

fun getSubstitution :: "string \<Rightarrow> string \<Rightarrow> nat \<Rightarrow> string \<Rightarrow> string" where
  "getSubstitution matched str position [] = []"
| "getSubstitution matched str position [c] = [c]"
| "getSubstitution matched str position (c # d # r) =
     (if c = CHR ''$'' then
        (if d = CHR ''$'' then CHR ''$'' # getSubstitution matched str position r
         else if d = CHR ''&'' then matched @ getSubstitution matched str position r
         else if d = CHR 0x60 then take position str @ getSubstitution matched str position r
         else if d = CHR 0x27
           then drop (position + length matched) str @ getSubstitution matched str position r
         else c # getSubstitution matched str position (d # r))
      else c # getSubstitution matched str position (d # r))"

text \<open>\<^verbatim>\<open>s.replace(regexp, newSubstr)\<close> without the global flag: the first match only.\<close>

definition replace :: "string \<Rightarrow> regexp \<Rightarrow> string \<Rightarrow> string" where
  "replace s r newSubstr =
     (case exec r s of
        None \<Rightarrow> s
      | Some (i, n) \<Rightarrow>
          take i s @ getSubstitution (take n (drop i s)) s i newSubstr @ drop (i + n) s)"

section \<open>Values, settings and files\<close>

text \<open>
  The values a frontmatter mapping holds. Numbers are the integers, which a JavaScript
  number holds exactly below \<open>2 ^ 53\<close>; \<open>JObj\<close> stands for any array or object.
\<close>

datatype jsval = JUndefined | JNull | JBool bool | JNum int | JStr string | JObj

fun truthy :: "jsval \<Rightarrow> bool" where
  "truthy JUndefined = False"
| "truthy JNull = False"
| "truthy (JBool b) = b"
| "truthy (JNum n) = (n \<noteq> 0)"
| "truthy (JStr s) = (s \<noteq> [])"
| "truthy JObj = True"

type_synonym frontmatter = "string \<rightharpoonup> jsval"

text \<open>\<^verbatim>\<open>frontmatter[key]\<close>: a missing key reads as \<^verbatim>\<open>undefined\<close>.\<close>

definition get :: "frontmatter \<Rightarrow> string \<Rightarrow> jsval" where
  "get fm key = (case fm key of None \<Rightarrow> JUndefined | Some v \<Rightarrow> v)"

record DateMirrorSettings =
  dateProperty :: string
  dateFormat :: string

definition DEFAULT_SETTINGS :: DateMirrorSettings where
  "DEFAULT_SETTINGS = \<lparr>dateProperty = ''DEFAULT'', dateFormat = ''YYYY-MM-DD''\<rparr>"

text \<open>
  What the handlers read of a \<^verbatim>\<open>TFile\<close>: \<open>parent\<close> is \<^verbatim>\<open>file.parent?.path\<close>, \<open>None\<close> when the
  file has no parent folder.
\<close>

record TFile =
  basename :: string
  extension :: string
  parent :: "string option"

section \<open>The date library\<close>

text \<open>
  \<^verbatim>\<open>window.moment\<close> is supplied by the host. The handlers use four of its operations, and
  take them as a parameter: \<open>moment\<close> is \<^verbatim>\<open>moment(value)\<close>, the permissive reading of a
  frontmatter value; \<open>moment_strict\<close> is \<^verbatim>\<open>moment(string, format, true)\<close>; \<open>format\<close> is
  \<^verbatim>\<open>m.format(format)\<close>; \<open>isValid\<close> is \<^verbatim>\<open>m.isValid()\<close>.
\<close>

record 'm momentjs =
  moment :: "jsval \<Rightarrow> 'm"
  moment_strict :: "string \<Rightarrow> string \<Rightarrow> 'm"
  format :: "'m \<Rightarrow> string \<Rightarrow> string"
  isValid :: "'m \<Rightarrow> bool"

section \<open>The plugin\<close>

text \<open>\<^verbatim>\<open>replaceDateInFilename\<close>, lines 80 to 90.\<close>

definition replaceDateInFilename :: "DateMirrorSettings \<Rightarrow> string \<Rightarrow> string \<Rightarrow> error + string" where
  "replaceDateInFilename settings filename newDate =
     (case createDatePatternFromFormat (dateFormat settings) of
        Inl e \<Rightarrow> Inl e
      | Inr datePattern \<Rightarrow>
          if test datePattern filename then Inr (replace filename datePattern newDate)
          else Inr filename)"

text \<open>
  \<^verbatim>\<open>updateFilename\<close>, lines 48 to 74. \<open>cache\<close> is \<^verbatim>\<open>getFileCache(file)?.frontmatter\<close>, \<open>None\<close>
  when the file has no cache entry or no frontmatter. The result is the path of the
  rename that is requested, \<open>None\<close> when no rename is requested.
\<close>

definition updateFilename ::
  "'m momentjs \<Rightarrow> DateMirrorSettings \<Rightarrow> frontmatter option \<Rightarrow> TFile \<Rightarrow> error + string option" where
  "updateFilename lib settings cache file =
     (case cache of
        None \<Rightarrow> Inr None
      | Some fm \<Rightarrow>
          if truthy (get fm (dateProperty settings)) then
            (let date = get fm (dateProperty settings);
                 formattedDate = format lib (moment lib date) (dateFormat settings);
                 currentName = basename file
             in case replaceDateInFilename settings currentName formattedDate of
                  Inl e \<Rightarrow> Inl e
                | Inr newName \<Rightarrow>
                    if newName = currentName then Inr None
                    else
                      (let newFileName =
                             (if extension file \<noteq> [] then newName @ ''.'' @ extension file
                              else newName);
                           newPath =
                             (case parent file of None \<Rightarrow> ''undefined'' | Some p \<Rightarrow> p)
                               @ ''/'' @ newFileName
                       in Inr (Some newPath)))
          else Inr None)"

text \<open>
  \<^verbatim>\<open>extractDateFromFilename\<close>, lines 134 to 150: \<open>Inr None\<close> is the result \<^verbatim>\<open>null\<close>.
\<close>

definition extractDateFromFilename ::
  "'m momentjs \<Rightarrow> DateMirrorSettings \<Rightarrow> string \<Rightarrow> error + 'm option" where
  "extractDateFromFilename lib settings filename =
     (case createDatePatternFromFormat (dateFormat settings) of
        Inl e \<Rightarrow> Inl e
      | Inr datePattern \<Rightarrow>
          (case match0 filename datePattern of
             None \<Rightarrow> Inr None
           | Some dateString \<Rightarrow>
               (let parsedDate = moment_strict lib dateString (dateFormat settings)
                in if isValid lib parsedDate then Inr (Some parsedDate) else Inr None)))"

text \<open>
  \<^verbatim>\<open>formatFrontmatterDate\<close>, lines 157 to 165. The test \<^verbatim>\<open>/^\d+$/\<close> accepts the non-empty
  strings of digits. \<^verbatim>\<open>parseInt(output, 10)\<close> is only called on such a text, where it is
  the decimal value; a JavaScript number holds that value exactly when the text has at
  most 15 digits.
\<close>

definition formatFrontmatterDate :: "'m momentjs \<Rightarrow> DateMirrorSettings \<Rightarrow> 'm \<Rightarrow> jsval" where
  "formatFrontmatterDate lib settings date =
     (let output = format lib date (dateFormat settings)
      in if output \<noteq> [] \<and> list_all is_digit output then JNum (int (dec_value output))
         else JStr output)"

text \<open>
  \<^verbatim>\<open>updateFrontmatter\<close>, lines 112 to 128. The argument is the mapping that
  \<^verbatim>\<open>processFrontMatter\<close> hands to the callback. The result is \<open>None\<close> when
  \<^verbatim>\<open>processFrontMatter\<close> is not called, and otherwise the mapping as the callback leaves it.
\<close>

definition updateFrontmatter ::
  "'m momentjs \<Rightarrow> DateMirrorSettings \<Rightarrow> TFile \<Rightarrow> frontmatter \<Rightarrow> error + frontmatter option" where
  "updateFrontmatter lib settings file frontmatter =
     (case extractDateFromFilename lib settings (basename file) of
        Inl e \<Rightarrow> Inl e
      | Inr None \<Rightarrow> Inr None
      | Inr (Some dateFromFilename) \<Rightarrow>
          (let newDate = formatFrontmatterDate lib settings dateFromFilename
           in if get frontmatter (dateProperty settings) \<noteq> newDate
              then Inr (Some (frontmatter(dateProperty settings \<mapsto> newDate)))
              else Inr (Some frontmatter)))"

section \<open>Date formats and a model of the date library\<close>

text \<open>
  Modelled from the spec: the token vocabulary of a DateFormat (sections 3 and 4.1),
  which the source leaves to the date library. The tokens are the 4-digit year, the
  2-digit year, the 2-digit month, the 1-2-digit month, the 2-digit day and the
  1-2-digit day; any other character is a literal. A format is read from the left, the
  longer token first.
\<close>

datatype token = Year4 | Year2 | Month2 | Month1 | Day2 | Day1 | Literal char

function tokenize :: "string \<Rightarrow> token list" where
  "tokenize [] = []"
| "tokenize (c # cs) =
     (if prefix ''YYYY'' (c # cs) then Year4 # tokenize (drop 3 cs)
      else if prefix ''YY'' (c # cs) then Year2 # tokenize (drop 1 cs)
      else if prefix ''MM'' (c # cs) then Month2 # tokenize (drop 1 cs)
      else if c = CHR ''M'' then Month1 # tokenize cs
      else if prefix ''DD'' (c # cs) then Day2 # tokenize (drop 1 cs)
      else if c = CHR ''D'' then Day1 # tokenize cs
      else Literal c # tokenize cs)"
  by pat_completeness auto
termination
  by (relation "measure length") auto

text \<open>The pattern text of a token (section 4.1 of the spec).\<close>

fun token_text :: "token \<Rightarrow> string" where
  "token_text Year4 = digits4"
| "token_text Year2 = digits2"
| "token_text Month2 = digits2"
| "token_text Month1 = digits12"
| "token_text Day2 = digits2"
| "token_text Day1 = digits12"
| "token_text (Literal c) = (if special c then [bslash, c] else [c])"

text \<open>What a token matches: exactly 4 digits, exactly 2 digits, 1 or 2 digits, or the
  literal character itself.\<close>

fun token_piece :: "token \<Rightarrow> piece" where
  "token_piece Year4 = Piece Digit 4 4"
| "token_piece Year2 = Piece Digit 2 2"
| "token_piece Month2 = Piece Digit 2 2"
| "token_piece Month1 = Piece Digit 1 2"
| "token_piece Day2 = Piece Digit 2 2"
| "token_piece Day1 = Piece Digit 1 2"
| "token_piece (Literal c) = Piece (Chr c) 1 1"






text \<open>A CalendarDate (section 3 of the spec).\<close>

record CalendarDate =
  year :: nat
  month :: nat
  day :: nat

datatype moment = Invalid | Valid CalendarDate

definition leap_year :: "nat \<Rightarrow> bool" where
  "leap_year y \<longleftrightarrow> y mod 4 = 0 \<and> (y mod 100 \<noteq> 0 \<or> y mod 400 = 0)"

definition days_in_month :: "nat \<Rightarrow> nat \<Rightarrow> nat" where
  "days_in_month y m =
     (if m = 2 then (if leap_year y then 29 else 28)
      else if m \<in> {4, 6, 9, 11} then 30
      else 31)"

definition valid_date :: "CalendarDate \<Rightarrow> bool" where
  "valid_date d \<longleftrightarrow>
     1 \<le> month d \<and> month d \<le> 12 \<and> 1 \<le> day d \<and> day d \<le> days_in_month (year d) (month d)"

definition digit_char :: "nat \<Rightarrow> char" where
  "digit_char n = char_of (48 + n)"

function dec_string :: "nat \<Rightarrow> string" where
  "dec_string n =
     (if n < 10 then [digit_char n] else dec_string (n div 10) @ [digit_char (n mod 10)])"
  by pat_completeness auto
termination
  by (relation "measure id") auto

definition zeroFill :: "nat \<Rightarrow> nat \<Rightarrow> string" where
  "zeroFill n targetLength =
     replicate (targetLength - length (dec_string n)) CHR ''0'' @ dec_string n"

text \<open>
  Modelled from the spec: rendering (section 4.3), which the source leaves to the date
  library. Each token is replaced with the zero-padded or unpadded field, literals are
  kept; an invalid date renders as the library's text for it.
\<close>

fun render_token :: "CalendarDate \<Rightarrow> token \<Rightarrow> string" where
  "render_token d Year4 = zeroFill (year d) 4"
| "render_token d Year2 = zeroFill (year d mod 100) 2"
| "render_token d Month2 = zeroFill (month d) 2"
| "render_token d Month1 = dec_string (month d)"
| "render_token d Day2 = zeroFill (day d) 2"
| "render_token d Day1 = dec_string (day d)"
| "render_token d (Literal c) = [c]"

definition render :: "moment \<Rightarrow> string \<Rightarrow> string" where
  "render m F =
     (case m of
        Invalid \<Rightarrow> ''Invalid date''
      | Valid d \<Rightarrow> concat (map (render_token d) (tokenize F)))"

text \<open>
  Modelled from the spec: strict parsing (section 4.2), which the source leaves to the
  date library. The text is read token by token from the left, each token taking the
  digits it stands for (a 1-2-digit token takes two when two are there) and each
  literal its own character; nothing may be left over. A 2-digit year above 68 lies in
  the 1900s, any other in the 2000s.
\<close>

record fields =
  fyear :: "nat option"
  fmonth :: "nat option"
  fday :: "nat option"

definition take_digits :: "nat \<Rightarrow> string \<Rightarrow> (nat \<times> string) option" where
  "take_digits k s =
     (if k \<le> length s \<and> list_all is_digit (take k s)
      then Some (dec_value (take k s), drop k s) else None)"

definition take_digits12 :: "string \<Rightarrow> (nat \<times> string) option" where
  "take_digits12 s = (case take_digits 2 s of Some r \<Rightarrow> Some r | None \<Rightarrow> take_digits 1 s)"

fun read_token :: "token \<Rightarrow> fields \<Rightarrow> string \<Rightarrow> (fields \<times> string) option" where
  "read_token Year4 f s =
     map_option (\<lambda>(n, r). (f\<lparr>fyear := Some n\<rparr>, r)) (take_digits 4 s)"
| "read_token Year2 f s =
     map_option (\<lambda>(n, r). (f\<lparr>fyear := Some (if 68 < n then 1900 + n else 2000 + n)\<rparr>, r))
       (take_digits 2 s)"
| "read_token Month2 f s =
     map_option (\<lambda>(n, r). (f\<lparr>fmonth := Some n\<rparr>, r)) (take_digits 2 s)"
| "read_token Month1 f s =
     map_option (\<lambda>(n, r). (f\<lparr>fmonth := Some n\<rparr>, r)) (take_digits12 s)"
| "read_token Day2 f s =
     map_option (\<lambda>(n, r). (f\<lparr>fday := Some n\<rparr>, r)) (take_digits 2 s)"
| "read_token Day1 f s =
     map_option (\<lambda>(n, r). (f\<lparr>fday := Some n\<rparr>, r)) (take_digits12 s)"
| "read_token (Literal c) f s =
     (case s of [] \<Rightarrow> None | x # r \<Rightarrow> if x = c then Some (f, r) else None)"

fun read_tokens :: "token list \<Rightarrow> fields \<Rightarrow> string \<Rightarrow> fields option" where
  "read_tokens [] f s = (if s = [] then Some f else None)"
| "read_tokens (t # ts) f s =
     (case read_token t f s of None \<Rightarrow> None | Some (f', r) \<Rightarrow> read_tokens ts f' r)"

text \<open>
  A field the format does not name: the leading missing fields are those of the
  current date, a missing month after that is January and a missing day the first.
\<close>

definition complete :: "CalendarDate \<Rightarrow> fields \<Rightarrow> CalendarDate" where
  "complete today f =
     (case fyear f of
        Some y \<Rightarrow>
          \<lparr>year = y,
           month = (case fmonth f of Some m \<Rightarrow> m | None \<Rightarrow> 1),
           day = (case fday f of Some d \<Rightarrow> d | None \<Rightarrow> 1)\<rparr>
      | None \<Rightarrow>
          (case fmonth f of
             Some m \<Rightarrow>
               \<lparr>year = year today, month = m, day = (case fday f of Some d \<Rightarrow> d | None \<Rightarrow> 1)\<rparr>
           | None \<Rightarrow>
               \<lparr>year = year today, month = month today,
                day = (case fday f of Some d \<Rightarrow> d | None \<Rightarrow> day today)\<rparr>))"

definition strict_parse :: "CalendarDate \<Rightarrow> string \<Rightarrow> string \<Rightarrow> moment" where
  "strict_parse today s F =
     (case read_tokens (tokenize F) \<lparr>fyear = None, fmonth = None, fday = None\<rparr> s of
        None \<Rightarrow> Invalid
      | Some f \<Rightarrow> if valid_date (complete today f) then Valid (complete today f) else Invalid)"

text \<open>
  Modelled from the spec: the permissive reading of a frontmatter value (section 4.5),
  which the source leaves to the date library. The model covers the one form in which
  the host stores a date property, the text \<^verbatim>\<open>YYYY-MM-DD\<close>; it reads every other value as
  invalid.
\<close>

definition permissive_parse :: "CalendarDate \<Rightarrow> jsval \<Rightarrow> moment" where
  "permissive_parse today v =
     (case v of JStr s \<Rightarrow> strict_parse today s ''YYYY-MM-DD'' | _ \<Rightarrow> Invalid)"

text \<open>The model of the date library on a day \<open>today\<close>.\<close>

definition window_moment :: "CalendarDate \<Rightarrow> moment momentjs" where
  "window_moment today =
     \<lparr>moment = permissive_parse today,
      moment_strict = strict_parse today,
      format = render,
      isValid = (\<lambda>m. m \<noteq> Invalid)\<rparr>"

text \<open>A day for the examples.\<close>

definition example_today :: CalendarDate where
  "example_today = \<lparr>year = 2026, month = 11, day = 2\<rparr>"

section \<open>What a pattern matches\<close>

text \<open>
  The strings a pattern matches as a whole: the string splits into one run per piece,
  the run of a piece holding between \<open>lo\<close> and \<open>hi\<close> characters of its atom.
\<close>

fun lang :: "regexp \<Rightarrow> string \<Rightarrow> bool" where
  "lang [] s = (s = [])"
| "lang (Piece a lo hi # ps) s =
     (\<exists>k \<in> set [lo..<Suc hi].
        k \<le> length s \<and> list_all (atom_matches a) (take k s) \<and> lang ps (drop k s))"

text \<open>The substring of \<open>s\<close> of length \<open>n\<close> at index \<open>i\<close> matches the pattern.\<close>

definition occurs :: "regexp \<Rightarrow> string \<Rightarrow> nat \<Rightarrow> nat \<Rightarrow> bool" where
  "occurs r s i n \<longleftrightarrow> i + n \<le> length s \<and> lang r (take n (drop i s))"

text \<open>
  A format of fixed width: its tokens are YYYY, YY, MM and DD, and its literal
  characters are neither digits nor dollar signs.
\<close>

fun fixed_token :: "token \<Rightarrow> bool" where
  "fixed_token Month1 = False"
| "fixed_token Day1 = False"
| "fixed_token (Literal c) = (\<not> is_digit c \<and> c \<noteq> CHR ''$'')"
| "fixed_token t = True"

definition fixed_width :: "string \<Rightarrow> bool" where
  "fixed_width F \<longleftrightarrow> list_all fixed_token (tokenize F)"

text \<open>
  Two characters are alike for a set of atoms when no atom of the set tells them
  apart.
\<close>

fun piece_atom :: "piece \<Rightarrow> atom" where
  "piece_atom (Piece a lo hi) = a"

definition alike :: "atom set \<Rightarrow> char \<Rightarrow> char \<Rightarrow> bool" where
  "alike A x y \<longleftrightarrow> (\<forall>a \<in> A. atom_matches a x = atom_matches a y)"

fun fixed_piece :: "piece \<Rightarrow> bool" where
  "fixed_piece (Piece a lo hi) = (lo = hi)"

text \<open>
  A format that names the whole date: its tokens are YYYY, MM and DD, each of them
  present, and literal characters. \<open>store\<close> is the field that the strict parse sets
  when it reads such a token of the rendering of a date.
\<close>

fun plain_token :: "token \<Rightarrow> bool" where
  "plain_token Year4 = True"
| "plain_token Month2 = True"
| "plain_token Day2 = True"
| "plain_token (Literal c) = True"
| "plain_token t = False"

fun store :: "CalendarDate \<Rightarrow> fields \<Rightarrow> token \<Rightarrow> fields" where
  "store d f Year4 = f\<lparr>fyear := Some (year d)\<rparr>"
| "store d f Month2 = f\<lparr>fmonth := Some (month d)\<rparr>"
| "store d f Day2 = f\<lparr>fday := Some (day d)\<rparr>"
| "store d f t = f"

definition full_format :: "string \<Rightarrow> bool" where
  "full_format F \<longleftrightarrow>
     list_all plain_token (tokenize F) \<and> Year4 \<in> set (tokenize F)
     \<and> Month2 \<in> set (tokenize F) \<and> Day2 \<in> set (tokenize F)"

text \<open>The six token substitutions of lines 101 to 107, in their order.\<close>

definition substitute_tokens :: "string \<Rightarrow> string" where
  "substitute_tokens s =
     replace_all ''D'' digits12 (replace_all ''DD'' digits2 (replace_all ''M'' digits12
       (replace_all ''MM'' digits2 (replace_all ''YY'' digits2 (replace_all ''YYYY'' digits4 s)))))"

section \<open>The pattern text, token by token\<close>

lemma datePatternSource_substitute:
  "datePatternSource F = substitute_tokens (escape_special F)"
  by (simp add: datePatternSource_def substitute_tokens_def)

lemma special_bslash: "special bslash"
  by (simp add: special_def)

lemma prefix_escape_special:
  "list_all (\<lambda>c. \<not> special c) p \<Longrightarrow> prefix p (escape_special s) = prefix p s"
proof (induction p arbitrary: s)
  case Nil
  then show ?case by simp
next
  case (Cons a p)
  then have a: "\<not> special a" and p: "list_all (\<lambda>c. \<not> special c) p" by simp_all
  show ?case
  proof (cases s)
    case Nil
    then show ?thesis by simp
  next
    case (Cons c cs)
    show ?thesis
    proof (cases "special c")
      case True
      with a have "a \<noteq> c" "a \<noteq> bslash" using special_bslash by auto
      with True Cons show ?thesis by simp
    next
      case False
      with Cons Cons.IH [OF p, of cs] show ?thesis by simp
    qed
  qed
qed

lemma replace_all_skip:
  "c \<noteq> x \<Longrightarrow> replace_all (x # p) rep (c # s) = c # replace_all (x # p) rep s"
  by simp

lemma replace_all_head:
  "\<not> prefix [y] s \<Longrightarrow> \<not> prefix [y] rep \<Longrightarrow> rep \<noteq> [] \<Longrightarrow>
   \<not> prefix [y] (replace_all pat rep s)"
  by (cases s; cases rep) auto


lemma prefix_shorter: "\<not> prefix p s \<Longrightarrow> \<not> prefix (p @ q) s"
  using append_prefixD by blast

lemma substitute_literal:
  "c \<noteq> CHR ''Y'' \<Longrightarrow> c \<noteq> CHR ''M'' \<Longrightarrow> c \<noteq> CHR ''D'' \<Longrightarrow>
   substitute_tokens (c # x) = c # substitute_tokens x"
  by (simp add: substitute_tokens_def)

lemma substitute_Year4:
  "substitute_tokens (CHR ''Y'' # CHR ''Y'' # CHR ''Y'' # CHR ''Y'' # x) = digits4 @ substitute_tokens x"
  by (simp add: substitute_tokens_def digits4_def bslash_def)

lemma substitute_Year2:
  assumes "\<not> prefix ''YY'' x"
  shows "substitute_tokens (CHR ''Y'' # CHR ''Y'' # x) = digits2 @ substitute_tokens x"
proof -
  from assms have a: "\<not> prefix ''YYY'' x"
    using prefix_shorter [of "''YY''" x "''Y''"] by simp
  have "replace_all ''YYYY'' digits4 (CHR ''Y'' # CHR ''Y'' # x)
        = CHR ''Y'' # CHR ''Y'' # replace_all ''YYYY'' digits4 x"
    using assms a by simp
  then show ?thesis
    by (simp add: substitute_tokens_def digits2_def bslash_def)
qed


lemma head_digits [simp]:
  "\<not> prefix [CHR ''Y''] digits4" "\<not> prefix [CHR ''Y''] digits2" "\<not> prefix [CHR ''Y''] digits12"
  "\<not> prefix [CHR ''M''] digits4" "\<not> prefix [CHR ''M''] digits2" "\<not> prefix [CHR ''M''] digits12"
  "\<not> prefix [CHR ''D''] digits4" "\<not> prefix [CHR ''D''] digits2" "\<not> prefix [CHR ''D''] digits12"
  "digits4 \<noteq> []" "digits2 \<noteq> []" "digits12 \<noteq> []"
  by (simp_all add: digits4_def digits2_def digits12_def bslash_def)

lemma substitute_Year1:
  assumes "\<not> prefix ''Y'' x"
  shows "substitute_tokens (CHR ''Y'' # x) = CHR ''Y'' # substitute_tokens x"
proof -
  from assms have a: "\<not> prefix ''YYY'' x"
    using prefix_shorter [of "''Y''" x "''YY''"] by simp
  have 1: "replace_all ''YYYY'' digits4 (CHR ''Y'' # x) = CHR ''Y'' # replace_all ''YYYY'' digits4 x"
    using a by simp
  have "\<not> prefix ''Y'' (replace_all ''YYYY'' digits4 x)"
    using assms by (intro replace_all_head) simp_all
  then have 2: "replace_all ''YY'' digits2 (CHR ''Y'' # replace_all ''YYYY'' digits4 x)
                = CHR ''Y'' # replace_all ''YY'' digits2 (replace_all ''YYYY'' digits4 x)"
    by simp
  show ?thesis
    unfolding substitute_tokens_def 1 2 by (simp del: replace_all.simps add: replace_all_skip)
qed

lemma substitute_Month2:
  "substitute_tokens (CHR ''M'' # CHR ''M'' # x) = digits2 @ substitute_tokens x"
  by (simp add: substitute_tokens_def digits2_def bslash_def)

lemma substitute_Month1:
  assumes "\<not> prefix ''M'' x"
  shows "substitute_tokens (CHR ''M'' # x) = digits12 @ substitute_tokens x"
proof -
  let ?z = "replace_all ''YY'' digits2 (replace_all ''YYYY'' digits4 x)"
  have "\<not> prefix ''M'' ?z"
    using assms by (intro replace_all_head) simp_all
  then have "replace_all ''MM'' digits2 (CHR ''M'' # ?z) = CHR ''M'' # replace_all ''MM'' digits2 ?z"
    by simp
  then show ?thesis
    by (simp add: substitute_tokens_def digits12_def bslash_def)
qed

lemma substitute_Day2:
  "substitute_tokens (CHR ''D'' # CHR ''D'' # x) = digits2 @ substitute_tokens x"
  by (simp add: substitute_tokens_def digits2_def bslash_def)

lemma substitute_Day1:
  assumes "\<not> prefix ''D'' x"
  shows "substitute_tokens (CHR ''D'' # x) = digits12 @ substitute_tokens x"
proof -
  let ?z = "replace_all ''M'' digits12 (replace_all ''MM'' digits2
              (replace_all ''YY'' digits2 (replace_all ''YYYY'' digits4 x)))"
  have "\<not> prefix ''D'' ?z"
    using assms by (intro replace_all_head) simp_all
  then have "replace_all ''DD'' digits2 (CHR ''D'' # ?z) = CHR ''D'' # replace_all ''DD'' digits2 ?z"
    by simp
  then show ?thesis
    by (simp add: substitute_tokens_def digits12_def bslash_def)
qed

lemma substitute_Nil: "substitute_tokens [] = []"
  by (simp add: substitute_tokens_def)

lemma not_special_letters:
  "\<not> special CHR ''Y''" "\<not> special CHR ''M''" "\<not> special CHR ''D''"
  by (simp_all add: special_def bslash_def)

lemma datePatternSource_tokens_aux:
  "substitute_tokens (escape_special F) = concat (map token_text (tokenize F))"
proof (induction "length F" arbitrary: F rule: less_induct)
  case less
  show ?case
  proof (cases F)
    case Nil
    then show ?thesis by (simp add: substitute_Nil)
  next
    case (Cons c cs)
    note F = this
    consider (y4) "prefix ''YYYY'' F"
      | (y2) "\<not> prefix ''YYYY'' F" "prefix ''YY'' F"
      | (y1) "\<not> prefix ''YY'' F" "c = CHR ''Y''"
      | (m2) "prefix ''MM'' F"
      | (m1) "\<not> prefix ''MM'' F" "c = CHR ''M''"
      | (d2) "prefix ''DD'' F"
      | (d1) "\<not> prefix ''DD'' F" "c = CHR ''D''"
      | (lit) "c \<noteq> CHR ''Y''" "c \<noteq> CHR ''M''" "c \<noteq> CHR ''D''"
      using F by auto
    then show ?thesis
    proof cases
      case y4
      then obtain G where G: "F = ''YYYY'' @ G" by (auto simp: prefix_def)
      then have "length G < length F" by simp
      from less [OF this] G show ?thesis
        by (simp add: substitute_Year4 not_special_letters)
    next
      case y2
      then obtain G where G: "F = ''YY'' @ G" by (auto simp: prefix_def)
      with y2 have n: "\<not> prefix ''YY'' G" by simp
      then have "\<not> prefix ''YY'' (escape_special G)"
        by (simp add: prefix_escape_special not_special_letters)
      moreover from G have "length G < length F" by simp
      ultimately show ?thesis using less [of G] G n
        by (simp add: substitute_Year2 not_special_letters)
    next
      case y1
      with F have n: "\<not> prefix ''Y'' cs" by simp
      then have "\<not> prefix ''Y'' (escape_special cs)"
        by (simp add: prefix_escape_special not_special_letters)
      moreover from n have "\<not> prefix ''YYY'' cs"
        using prefix_shorter [of "''Y''" cs "''YY''"] by simp
      ultimately show ?thesis using less [of cs] F y1 n
        by (simp add: substitute_Year1 not_special_letters)
    next
      case m2
      then obtain G where G: "F = ''MM'' @ G" by (auto simp: prefix_def)
      then have "length G < length F" by simp
      from less [OF this] G show ?thesis
        by (simp add: substitute_Month2 not_special_letters)
    next
      case m1
      with F have n: "\<not> prefix ''M'' cs" by simp
      then have "\<not> prefix ''M'' (escape_special cs)"
        by (simp add: prefix_escape_special not_special_letters)
      then show ?thesis using less [of cs] F m1 n
        by (simp add: substitute_Month1 not_special_letters)
    next
      case d2
      then obtain G where G: "F = ''DD'' @ G" by (auto simp: prefix_def)
      then have "length G < length F" by simp
      from less [OF this] G show ?thesis
        by (simp add: substitute_Day2 not_special_letters)
    next
      case d1
      with F have n: "\<not> prefix ''D'' cs" by simp
      then have "\<not> prefix ''D'' (escape_special cs)"
        by (simp add: prefix_escape_special not_special_letters)
      then show ?thesis using less [of cs] F d1 n
        by (simp add: substitute_Day1 not_special_letters)
    next
      case lit
      have b: "bslash \<noteq> CHR ''Y''" "bslash \<noteq> CHR ''M''" "bslash \<noteq> CHR ''D''"
        by (simp_all add: bslash_def)
      from lit F less [of cs] show ?thesis
        by (simp add: substitute_literal b)
    qed
  qed
qed


lemma token_text_no_brace:
  "\<not> prefix ''{'' (concat (map token_text ts))"
proof (cases ts)
  case Nil
  then show ?thesis by simp
next
  case (Cons t us)
  then show ?thesis
    by (cases t) (auto simp: digits4_def digits2_def digits12_def bslash_def special_def)
qed

lemma parse_quantifier_none:
  "\<not> prefix ''{'' s \<Longrightarrow> parse_quantifier s = Some ((1, 1), s)"
  by (cases s) (simp_all add: parse_quantifier_def)

lemma parse_digits4:
  "parse_pieces (digits4 @ s) = map_option ((#) (Piece Digit 4 4)) (parse_pieces s)"
  by (simp add: digits4_def parse_atom_def parse_quantifier_def read_number_def
      is_digit_def dec_value_def digit_val_def bslash_def)

lemma parse_digits2:
  "parse_pieces (digits2 @ s) = map_option ((#) (Piece Digit 2 2)) (parse_pieces s)"
  by (simp add: digits2_def parse_atom_def parse_quantifier_def read_number_def
      is_digit_def dec_value_def digit_val_def bslash_def)

lemma parse_digits12:
  "parse_pieces (digits12 @ s) = map_option ((#) (Piece Digit 1 2)) (parse_pieces s)"
  by (simp add: digits12_def parse_atom_def parse_quantifier_def read_number_def
      is_digit_def dec_value_def digit_val_def bslash_def)

lemma parse_literal:
  assumes "\<not> prefix ''{'' s"
  shows "parse_pieces (token_text (Literal c) @ s)
         = map_option ((#) (Piece (Chr c) 1 1)) (parse_pieces s)"
proof (cases "special c")
  case True
  then have "c \<noteq> CHR ''d''" by (auto simp: special_def bslash_def)
  with True assms show ?thesis
    by (simp add: parse_atom_def parse_quantifier_none)
next
  case False
  then have "c \<noteq> bslash" by (auto simp: special_def)
  with False assms show ?thesis
    by (simp add: parse_atom_def parse_quantifier_none)
qed

lemma parse_token_texts:
  "parse_pieces (concat (map token_text ts)) = Some (map token_piece ts)"
proof (induction ts)
  case Nil
  then show ?case by simp
next
  case (Cons t ts)
  have nb: "\<not> prefix ''{'' (concat (map token_text ts))"
    by (rule token_text_no_brace)
  show ?case
  proof (cases t)
    case (Literal c)
    then have "parse_pieces (concat (map token_text (t # ts)))
               = parse_pieces (token_text (Literal c) @ concat (map token_text ts))"
      by simp
    also have "\<dots> = map_option ((#) (Piece (Chr c) 1 1)) (parse_pieces (concat (map token_text ts)))"
      using nb by (rule parse_literal)
    finally show ?thesis using Cons.IH Literal by simp
  qed (simp_all add: parse_digits4 parse_digits2 parse_digits12 Cons.IH)
qed

lemma createDatePatternFromFormat_tokens:
  "createDatePatternFromFormat F = Inr (map token_piece (tokenize F))"
  by (simp add: createDatePatternFromFormat_def RegExp_def datePatternSource_substitute
      datePatternSource_tokens_aux parse_token_texts)

section \<open>The matcher finds the leftmost match\<close>

lemma first_some_None: "first_some xs = None \<longleftrightarrow> (\<forall>x \<in> set xs. x = None)"
  by (induction xs rule: first_some.induct) auto

lemma first_some_Some:
  "first_some xs = Some y \<Longrightarrow> \<exists>i < length xs. xs ! i = Some y \<and> (\<forall>j < i. xs ! j = None)"
proof (induction xs rule: first_some.induct)
  case 1
  then show ?case by simp
next
  case (2 xs)
  then obtain i where i: "i < length xs" "xs ! i = Some y" "\<forall>j < i. xs ! j = None"
    by auto
  have "\<forall>j < Suc i. (None # xs) ! j = None"
  proof (intro allI impI)
    fix j assume "j < Suc i"
    then show "(None # xs) ! j = None" using i(3) by (cases j) auto
  qed
  with i show ?case by (intro exI [of _ "Suc i"]) simp
next
  case (3 x xs)
  then show ?case by (intro exI [of _ 0]) simp
qed

lemma first_some_map_Some:
  "first_some (map f xs) = Some y \<Longrightarrow> \<exists>x \<in> set xs. f x = Some y"
proof (induction xs)
  case Nil
  then show ?case by simp
next
  case (Cons x xs)
  then show ?case by (cases "f x") auto
qed

lemma match_here_sound:
  "match_here r s = Some n \<Longrightarrow> n \<le> length s \<and> lang r (take n s)"
proof (induction r arbitrary: s n)
  case Nil
  then show ?case by simp
next
  case (Cons p ps)
  obtain a lo hi where p: "p = Piece a lo hi" by (cases p)
  let ?f = "\<lambda>k. if k \<le> length s \<and> list_all (atom_matches a) (take k s)
                 then map_option (\<lambda>n. k + n) (match_here ps (drop k s)) else None"
  from Cons.prems have "first_some (map ?f (rev [lo..<Suc hi])) = Some n"
    unfolding p match_here.simps .
  then have "\<exists>k \<in> set (rev [lo..<Suc hi]). ?f k = Some n"
    by (rule first_some_map_Some)
  then obtain k where "k \<in> set (rev [lo..<Suc hi])" and k1: "?f k = Some n"
    by (rule bexE)
  then have k2: "k \<in> set [lo..<Suc hi]" by (simp only: set_rev)
  note k = k1 [symmetric] k2
  from k(1) have c: "k \<le> length s \<and> list_all (atom_matches a) (take k s)"
    by (cases "k \<le> length s \<and> list_all (atom_matches a) (take k s)") simp_all
  with k(1) have "map_option (\<lambda>n. k + n) (match_here ps (drop k s)) = Some n" by simp
  then obtain m where m3: "match_here ps (drop k s) = Some m" and m4: "n = k + m"
    by (cases "match_here ps (drop k s)") auto
  note m = conjunct1 [OF c] conjunct2 [OF c] m3 m4
  from Cons.IH [OF m(3)] have ih: "m \<le> length s - k" "lang ps (take m (drop k s))" by simp_all
  have 1: "n \<le> length s" using m(1,4) ih(1) by simp
  have 2: "take k (take n s) = take k s" using m(4) by simp
  have 3: "drop k (take n s) = take m (drop k s)" using m(4) by (simp add: drop_take)
  have "k \<le> length (take n s)" using m(1,4) 1 by simp
  with m(2) ih(2) 2 3
  have "k \<le> length (take n s) \<and> list_all (atom_matches a) (take k (take n s))
        \<and> lang ps (drop k (take n s))"
    by simp
  then have "lang (Piece a lo hi # ps) (take n s)"
    unfolding lang.simps using k(2) by (rule bexI)
  with 1 show ?case unfolding p by (rule conjI)
qed

lemma match_here_complete:
  "n \<le> length s \<Longrightarrow> lang r (take n s) \<Longrightarrow> match_here r s \<noteq> None"
proof (induction r arbitrary: s n)
  case Nil
  then show ?case by simp
next
  case (Cons p ps)
  obtain a lo hi where p: "p = Piece a lo hi" by (cases p)
  let ?f = "\<lambda>k. if k \<le> length s \<and> list_all (atom_matches a) (take k s)
                 then map_option (\<lambda>n. k + n) (match_here ps (drop k s)) else None"
  from Cons.prems(2) have "lang (Piece a lo hi # ps) (take n s)" unfolding p .
  then have "\<exists>k \<in> set [lo..<Suc hi]. k \<le> length (take n s)
      \<and> list_all (atom_matches a) (take k (take n s)) \<and> lang ps (drop k (take n s))"
    unfolding lang.simps .
  then obtain k where k1: "k \<in> set [lo..<Suc hi]" and kc: "k \<le> length (take n s)
      \<and> list_all (atom_matches a) (take k (take n s)) \<and> lang ps (drop k (take n s))"
    by (rule bexE)
  note k = k1 conjunct1 [OF kc] conjunct1 [OF conjunct2 [OF kc]] conjunct2 [OF conjunct2 [OF kc]]
  from k(2) Cons.prems(1) have kn: "k \<le> n" "k \<le> length s" by simp_all
  then have 2: "take k (take n s) = take k s" by simp
  have 3: "drop k (take n s) = take (n - k) (drop k s)" by (simp add: drop_take)
  have "n - k \<le> length (drop k s)" using Cons.prems(1) by simp
  from Cons.IH [OF this] k(4) 3 have "match_here ps (drop k s) \<noteq> None" by simp
  with k(3) 2 kn have nn: "?f k \<noteq> None" by simp
  from k(1) have "?f k \<in> ?f ` set [lo..<Suc hi]" by (rule imageI)
  then have mem: "?f k \<in> set (map ?f (rev [lo..<Suc hi]))"
    by (simp only: set_map set_rev)
  have "first_some (map ?f (rev [lo..<Suc hi])) \<noteq> None"
  proof
    assume "first_some (map ?f (rev [lo..<Suc hi])) = None"
    then have "\<forall>x \<in> set (map ?f (rev [lo..<Suc hi])). x = None"
      by (simp only: first_some_None)
    then have "?f k = None" using mem by (rule bspec)
    with nn show False by (rule notE)
  qed
  then show ?case unfolding p match_here.simps .
qed


lemma first_some_upt_Some:
  assumes "first_some (map f [0..<n]) = Some y"
  shows "\<exists>i < n. f i = Some y \<and> (\<forall>j < i. f j = None)"
proof -
  from first_some_Some [OF assms] obtain i where
    i: "i < length (map f [0..<n])" "map f [0..<n] ! i = Some y"
       "\<forall>j < i. map f [0..<n] ! j = None"
    by (elim exE conjE)
  from i(1) have n: "i < n" by simp
  with i(2) have 1: "f i = Some y" by simp
  have "\<forall>j < i. f j = None"
  proof (intro allI impI)
    fix j assume j: "j < i"
    with i(3) have "map f [0..<n] ! j = None" by simp
    moreover from j n have "j < n" by simp
    ultimately show "f j = None" by simp
  qed
  with n 1 show ?thesis by (intro exI [of _ i]) simp
qed

lemma first_some_upt_None:
  "first_some (map f [0..<n]) = None \<longleftrightarrow> (\<forall>i < n. f i = None)"
  by (auto simp: first_some_None)

lemma exec_Some:
  assumes "exec r s = Some (i, n)"
  shows "occurs r s i n \<and> match_here r (drop i s) = Some n
         \<and> (\<forall>j < i. \<forall>m. \<not> occurs r s j m)"
proof -
  let ?g = "\<lambda>i. map_option (Pair i) (match_here r (drop i s))"
  from assms have "first_some (map ?g [0..<Suc (length s)]) = Some (i, n)"
    unfolding exec_def .
  from first_some_upt_Some [OF this] obtain i' where
    i': "i' < Suc (length s)" "?g i' = Some (i, n)" "\<forall>j < i'. ?g j = None"
    by (elim exE conjE)
  from i'(2) have eq: "i' = i" and mh: "match_here r (drop i s) = Some n"
    by (cases "match_here r (drop i' s)"; simp)+
  from match_here_sound [OF mh] have "n \<le> length s - i" "lang r (take n (drop i s))"
    by simp_all
  with i'(1) eq have occ: "occurs r s i n" by (simp add: occurs_def)
  have "\<forall>j < i. \<forall>m. \<not> occurs r s j m"
  proof (intro allI impI notI)
    fix j m assume j: "j < i" and o: "occurs r s j m"
    from j i'(3) eq have "match_here r (drop j s) = None" by simp
    moreover from o have "m \<le> length (drop j s)" "lang r (take m (drop j s))"
      by (auto simp: occurs_def)
    then have "match_here r (drop j s) \<noteq> None" by (rule match_here_complete)
    ultimately show False by simp
  qed
  with occ mh show ?thesis by simp
qed

lemma exec_None: "exec r s = None \<longleftrightarrow> (\<forall>i n. \<not> occurs r s i n)"
proof
  assume "exec r s = None"
  then have a: "\<forall>i < Suc (length s). match_here r (drop i s) = None"
    unfolding exec_def first_some_upt_None by simp
  show "\<forall>i n. \<not> occurs r s i n"
  proof (intro allI notI)
    fix i n assume o: "occurs r s i n"
    then have "n \<le> length (drop i s)" "lang r (take n (drop i s))"
      by (auto simp: occurs_def)
    then have "match_here r (drop i s) \<noteq> None" by (rule match_here_complete)
    moreover from o have "i < Suc (length s)" by (simp add: occurs_def)
    ultimately show False using a by simp
  qed
next
  assume a: "\<forall>i n. \<not> occurs r s i n"
  show "exec r s = None"
  proof (cases "exec r s")
    case None
    then show ?thesis .
  next
    case (Some x)
    obtain i n where "x = (i, n)" by (cases x)
    with Some exec_Some [of r s i n] a show ?thesis by simp
  qed
qed

lemma occurs_embedded:
  assumes "occurs r s i n"
  shows "occurs r (p @ s @ q) (length p + i) n"
proof -
  from assms have le: "i + n \<le> length s" and l: "lang r (take n (drop i s))"
    by (simp_all add: occurs_def)
  have "drop (length p + i) (p @ s @ q) = drop i s @ q"
    using le by simp
  then have "take n (drop (length p + i) (p @ s @ q)) = take n (drop i s)"
    using le by simp
  with l le show ?thesis by (simp add: occurs_def)
qed

lemma test_occurs: "test r s \<longleftrightarrow> (\<exists>i n. occurs r s i n)"
  by (simp add: test_def exec_None)

lemma test_embedded: "test r s \<Longrightarrow> test r (p @ s @ q)"
  unfolding test_occurs using occurs_embedded by blast


lemma replaceDateInFilename_pattern:
  "replaceDateInFilename settings filename newDate
   = Inr (if test (map token_piece (tokenize (dateFormat settings))) filename
          then replace filename (map token_piece (tokenize (dateFormat settings))) newDate
          else filename)"
  by (simp add: replaceDateInFilename_def createDatePatternFromFormat_tokens)

lemma replaceDateInFilename_no_match:
  assumes "\<forall>i n. \<not> occurs (map token_piece (tokenize (dateFormat settings))) filename i n"
  shows "replaceDateInFilename settings filename newDate = Inr filename"
  using assms by (simp add: replaceDateInFilename_pattern test_occurs)

lemma extractDateFromFilename_pattern:
  "extractDateFromFilename lib settings filename
   = (case exec (map token_piece (tokenize (dateFormat settings))) filename of
        None \<Rightarrow> Inr None
      | Some (i, n) \<Rightarrow>
          if isValid lib (moment_strict lib (take n (drop i filename)) (dateFormat settings))
          then Inr (Some (moment_strict lib (take n (drop i filename)) (dateFormat settings)))
          else Inr None)"
  by (simp add: extractDateFromFilename_def createDatePatternFromFormat_tokens match0_def
      split: option.splits)

lemma pattern_YMD:
  "createDatePatternFromFormat ''YYYY-MM-DD''
   = Inr [Piece Digit 4 4, Piece (Chr CHR ''-'') 1 1, Piece Digit 2 2,
          Piece (Chr CHR ''-'') 1 1, Piece Digit 2 2]"
  by (simp add: createDatePatternFromFormat_tokens)

lemma digit_char_values:
  "digit_char 0 = CHR ''0''" "digit_char 1 = CHR ''1''" "digit_char 2 = CHR ''2''"
  "digit_char 3 = CHR ''3''" "digit_char 4 = CHR ''4''" "digit_char 5 = CHR ''5''"
  "digit_char 6 = CHR ''6''" "digit_char 7 = CHR ''7''" "digit_char 8 = CHR ''8''"
  "digit_char 9 = CHR ''9''" "digit_char (Suc 0) = CHR ''1''"
  by code_simp+

lemmas library_eval =
  window_moment_def permissive_parse_def strict_parse_def render_def zeroFill_def
  digit_char_values take_digits_def take_digits12_def is_digit_def dec_value_def
  digit_val_def valid_date_def days_in_month_def leap_year_def complete_def

lemma exec_Daily:
  "exec [Piece Digit 4 4, Piece (Chr CHR ''-'') 1 1, Piece Digit 2 2,
         Piece (Chr CHR ''-'') 1 1, Piece Digit 2 2] ''Daily 2025-01-02'' = Some (6, 10)"
  by code_simp

lemma extract_Daily:
  "extractDateFromFilename (window_moment example_today)
     \<lparr>dateProperty = p, dateFormat = ''YYYY-MM-DD''\<rparr> ''Daily 2025-01-02''
   = Inr (Some (Valid \<lparr>year = 2025, month = 1, day = 2\<rparr>))"
  using exec_Daily by (simp add: extractDateFromFilename_pattern library_eval)

lemma format_Daily:
  "formatFrontmatterDate (window_moment example_today)
     \<lparr>dateProperty = p, dateFormat = ''YYYY-MM-DD''\<rparr>
     (Valid \<lparr>year = 2025, month = 1, day = 2\<rparr>)
   = JStr ''2025-01-02''"
  by (simp add: formatFrontmatterDate_def library_eval)



lemma exec_Meeting:
  "exec [Piece Digit 4 4, Piece (Chr CHR ''-'') 1 1, Piece Digit 2 2,
         Piece (Chr CHR ''-'') 1 1, Piece Digit 2 2] ''Meeting 2023-05-01 notes'' = Some (8, 10)"
  by code_simp

lemma replace_Meeting:
  "replaceDateInFilename \<lparr>dateProperty = p, dateFormat = ''YYYY-MM-DD''\<rparr>
     ''Meeting 2023-05-01 notes'' ''2024-11-30''
   = Inr ''Meeting 2024-11-30 notes''"
  using exec_Meeting
  by (simp add: replaceDateInFilename_pattern test_def replace_def)

lemma format_ISO:
  "format (window_moment example_today)
     (moment (window_moment example_today) (JStr ''2024-11-30'')) ''YYYY-MM-DD''
   = ''2024-11-30''"
  by (simp add: library_eval)

lemma pattern_dollar:
  "createDatePatternFromFormat ''$$YYYY-MM-DD''
   = Inr [Piece (Chr CHR ''$'') 1 1, Piece (Chr CHR ''$'') 1 1, Piece Digit 4 4,
          Piece (Chr CHR ''-'') 1 1, Piece Digit 2 2, Piece (Chr CHR ''-'') 1 1, Piece Digit 2 2]"
  by (simp add: createDatePatternFromFormat_tokens)

lemma exec_Bill:
  "exec [Piece (Chr CHR ''$'') 1 1, Piece (Chr CHR ''$'') 1 1, Piece Digit 4 4,
         Piece (Chr CHR ''-'') 1 1, Piece Digit 2 2, Piece (Chr CHR ''-'') 1 1, Piece Digit 2 2]
     ''Bill $$2023-05-01'' = Some (5, 12)"
  by code_simp

lemma format_dollar:
  "format (window_moment example_today)
     (moment (window_moment example_today) (JStr ''2024-11-30'')) ''$$YYYY-MM-DD''
   = ''$$2024-11-30''"
  by (simp add: library_eval)

lemma getSubstitution_plain:
  "CHR ''$'' \<notin> set template \<Longrightarrow> getSubstitution matched str position template = template"
  by (induction matched str position template rule: getSubstitution.induct) auto

lemma replaceDateInFilename_plain:
  assumes "CHR ''$'' \<notin> set newDate"
  shows "replaceDateInFilename settings filename newDate
         = Inr (case exec (map token_piece (tokenize (dateFormat settings))) filename of
                  None \<Rightarrow> filename
                | Some (i, n) \<Rightarrow> take i filename @ newDate @ drop (i + n) filename)"
  using assms
  by (simp add: replaceDateInFilename_pattern test_def replace_def getSubstitution_plain
      split: option.splits)

lemma first_some_single: "first_some [x] = x"
  by (cases x) simp_all

lemma take_digits_match:
  assumes "take_digits k s = Some (v, r)"
  shows "match_here (Piece Digit k k # ps) s = map_option (\<lambda>n. k + n) (match_here ps r)"
proof -
  from assms have c: "k \<le> length s \<and> list_all (atom_matches Digit) (take k s)" and r: "r = drop k s"
    by (auto simp: take_digits_def list_all_iff split: if_splits)
  have "rev [k..<Suc k] = [k]" by simp
  then show ?thesis using c r by (simp del: upt_Suc add: first_some_single)
qed

lemma take_digits12_match:
  assumes "take_digits12 s = Some (v, r)" and "match_here ps r = Some n"
  shows "match_here (Piece Digit 1 2 # ps) s = Some (length s - length r + n)"
proof -
  have l: "rev [1..<Suc 2] = [2, 1]" by (simp add: numeral_2_eq_2)
  show ?thesis
  proof (cases "take_digits 2 s")
    case (Some x)
    with assms(1) have "take_digits 2 s = Some (v, r)" by (simp add: take_digits12_def)
    then have c: "2 \<le> length s \<and> list_all (atom_matches Digit) (take 2 s)" and r: "r = drop 2 s"
      by (auto simp: take_digits_def list_all_iff split: if_splits)
    then show ?thesis using assms(2) l by (simp del: upt_Suc)
  next
    case None
    with assms(1) have "take_digits 1 s = Some (v, r)" by (simp add: take_digits12_def)
    then have c: "1 \<le> length s \<and> list_all (atom_matches Digit) (take 1 s)" and r: "r = drop 1 s"
      by (auto simp: take_digits_def list_all_iff split: if_splits)
    from None have "\<not> (2 \<le> length s \<and> list_all (atom_matches Digit) (take 2 s))"
      by (auto simp: take_digits_def list_all_iff split: if_splits)
    then show ?thesis using c r assms(2) l by (auto simp del: upt_Suc)
  qed
qed


lemma take_digits_rest:
  "take_digits k s = Some (v, r) \<Longrightarrow> length s = k + length r"
  by (auto simp: take_digits_def split: if_splits)

lemma take_digits12_rest:
  "take_digits12 s = Some (v, r) \<Longrightarrow> length r \<le> length s"
  by (auto simp: take_digits12_def take_digits_def split: if_splits option.splits)

lemma literal_match:
  "match_here (Piece (Chr c) 1 1 # ps) (c # r) = map_option Suc (match_here ps r)"
proof -
  have "rev [1..<Suc 1] = [1::nat]" by simp
  then show ?thesis
    by (cases "match_here ps r") (simp_all del: upt_Suc add: first_some_single)
qed

lemma read_token_match:
  assumes "read_token t f s = Some (f', r)" and "match_here ps r = Some (length r)"
  shows "match_here (token_piece t # ps) s = Some (length s)"
proof -
  have fixed: "match_here (Piece Digit k k # ps) s = Some (length s)"
    if "take_digits k s = Some (v, r)" for k v
    using take_digits_match [OF that, of ps] take_digits_rest [OF that] assms(2) by simp
  have var: "match_here (Piece Digit 1 2 # ps) s = Some (length s)"
    if "take_digits12 s = Some (v, r)" for v
    using take_digits12_match [OF that assms(2)] take_digits12_rest [OF that] by simp
  show ?thesis
  proof (cases t)
    case (Literal c)
    with assms(1) have "s = c # r" by (auto split: list.splits if_splits)
    with assms(2) Literal show ?thesis by (simp only: token_piece.simps literal_match) simp
  qed (use assms(1) fixed var in \<open>auto simp del: match_here.simps\<close>)
qed

lemma read_tokens_match:
  "read_tokens ts f s = Some f' \<Longrightarrow> match_here (map token_piece ts) s = Some (length s)"
proof (induction ts arbitrary: f s)
  case Nil
  then show ?case by (simp split: if_splits)
next
  case (Cons t ts)
  from Cons.prems obtain f1 r where
    t: "read_token t f s = Some (f1, r)" and ts: "read_tokens ts f1 r = Some f'"
    by (auto split: option.splits)
  from Cons.IH [OF ts] have "match_here (map token_piece ts) r = Some (length r)" .
  with t have "match_here (token_piece t # map token_piece ts) s = Some (length s)"
    by (rule read_token_match)
  then show ?case by simp
qed

lemma exec_at_start:
  assumes "match_here r s = Some n"
  shows "exec r s = Some (0, n)"
proof -
  have "[0..<Suc (length s)] = 0 # [Suc 0..<Suc (length s)]"
    by (rule upt_conv_Cons) simp
  with assms show ?thesis by (simp add: exec_def del: upt_Suc)
qed

lemma strict_parse_whole_match:
  assumes "strict_parse today s F \<noteq> Invalid"
  shows "exec (map token_piece (tokenize F)) s = Some (0, length s)"
proof -
  from assms obtain f where
    "read_tokens (tokenize F) \<lparr>fyear = None, fmonth = None, fday = None\<rparr> s = Some f"
    by (auto simp: strict_parse_def split: option.splits)
  then have "match_here (map token_piece (tokenize F)) s = Some (length s)"
    by (rule read_tokens_match)
  then show ?thesis by (rule exec_at_start)
qed




lemma dec_value_snoc: "dec_value (xs @ [c]) = 10 * dec_value xs + digit_val c"
  by (simp add: dec_value_def)



lemma alike_list_all:
  assumes "list_all2 (alike A) s t" and "a \<in> A"
  shows "list_all (atom_matches a) s = list_all (atom_matches a) t"
  using assms by (induction rule: list_all2_induct) (auto simp: alike_def)

lemma match_here_alike:
  "list_all2 (alike A) s t \<Longrightarrow> piece_atom ` set r \<subseteq> A \<Longrightarrow> match_here r s = match_here r t"
proof (induction r arbitrary: s t)
  case Nil
  then show ?case by simp
next
  case (Cons p ps)
  obtain a lo hi where p: "p = Piece a lo hi" by (cases p)
  with Cons.prems(2) have a: "a \<in> A" and ps: "piece_atom ` set ps \<subseteq> A" by auto
  have len: "length s = length t" using Cons.prems(1) by (rule list_all2_lengthD)
  have "(if k \<le> length s \<and> list_all (atom_matches a) (take k s)
         then map_option (\<lambda>n. k + n) (match_here ps (drop k s)) else None)
      = (if k \<le> length t \<and> list_all (atom_matches a) (take k t)
         then map_option (\<lambda>n. k + n) (match_here ps (drop k t)) else None)" for k
  proof -
    have "list_all2 (alike A) (take k s) (take k t)"
      using Cons.prems(1) by (rule list_all2_takeI)
    then have 1: "list_all (atom_matches a) (take k s) = list_all (atom_matches a) (take k t)"
      using a by (rule alike_list_all)
    have "list_all2 (alike A) (drop k s) (drop k t)"
      using Cons.prems(1) by (rule list_all2_dropI)
    then have 2: "match_here ps (drop k s) = match_here ps (drop k t)"
      using ps by (rule Cons.IH)
    show ?thesis by (simp only: len 1 2)
  qed
  then show ?case unfolding p match_here.simps by (simp only:)
qed

lemma exec_alike:
  assumes "list_all2 (alike A) s t" and "piece_atom ` set r \<subseteq> A"
  shows "exec r s = exec r t"
proof -
  have len: "length s = length t" using assms(1) by (rule list_all2_lengthD)
  have "match_here r (drop i s) = match_here r (drop i t)" for i
    using list_all2_dropI [OF assms(1)] assms(2) by (rule match_here_alike)
  then show ?thesis unfolding exec_def by (simp only: len)
qed


lemma same_atom_alike:
  assumes "atom_matches a x" and "atom_matches a y" and "\<forall>c. Chr c \<in> A \<longrightarrow> \<not> is_digit c"
  shows "alike A x y"
  unfolding alike_def
proof
  fix b assume b: "b \<in> A"
  show "atom_matches b x = atom_matches b y"
  proof (cases a)
    case (Chr c)
    with assms(1,2) show ?thesis by simp
  next
    case Digit
    with assms(1,2) have d: "is_digit x" "is_digit y" by simp_all
    show ?thesis
    proof (cases b)
      case (Chr c)
      with b assms(3) have "\<not> is_digit c" by simp
      with d Chr show ?thesis by auto
    next
      case Digit
      with d show ?thesis by simp
    qed
  qed
qed

lemma list_all2_from_list_all:
  assumes "length xs = length ys" and "list_all P xs" and "list_all P ys"
    and "\<And>x y. P x \<Longrightarrow> P y \<Longrightarrow> R x y"
  shows "list_all2 R xs ys"
  using assms(1,2,3)
  by (induction xs ys rule: list_induct2) (simp_all add: assms(4))

lemma lang_fixed_alike:
  assumes "\<forall>c. Chr c \<in> A \<longrightarrow> \<not> is_digit c"
  shows "\<forall>p \<in> set r. fixed_piece p \<Longrightarrow> lang r m \<Longrightarrow> lang r v \<Longrightarrow> list_all2 (alike A) m v"
proof (induction r arbitrary: m v)
  case Nil
  then show ?case by simp
next
  case (Cons p ps)
  obtain a lo hi where p: "p = Piece a lo hi" by (cases p)
  with Cons.prems(1) have hi: "hi = lo" and ps: "\<forall>p \<in> set ps. fixed_piece p" by auto
  have split: "lo \<le> length w \<and> list_all (atom_matches a) (take lo w) \<and> lang ps (drop lo w)"
    if "lang (p # ps) w" for w
  proof -
    from that have "\<exists>k \<in> set [lo..<Suc lo]. k \<le> length w
        \<and> list_all (atom_matches a) (take k w) \<and> lang ps (drop k w)"
      unfolding p hi lang.simps .
    then show ?thesis by auto
  qed
  note sm = split [OF Cons.prems(2)] and sv = split [OF Cons.prems(3)]
  have "length (take lo m) = length (take lo v)" using sm sv by simp
  then have 1: "list_all2 (alike A) (take lo m) (take lo v)"
    using sm sv same_atom_alike [OF _ _ assms]
    by (intro list_all2_from_list_all [where P = "atom_matches a"]) auto
  have 2: "list_all2 (alike A) (drop lo m) (drop lo v)"
    using ps sm sv by (intro Cons.IH) auto
  from 1 2 have "list_all2 (alike A) (take lo m @ drop lo m) (take lo v @ drop lo v)"
    by (rule list_all2_appendI)
  then show ?case by simp
qed

lemma lang_avoids:
  "\<forall>p \<in> set r. \<not> atom_matches (piece_atom p) x \<Longrightarrow> lang r v \<Longrightarrow> x \<notin> set v"
proof (induction r arbitrary: v)
  case Nil
  then show ?case by simp
next
  case (Cons p ps)
  obtain a lo hi where p: "p = Piece a lo hi" by (cases p)
  with Cons.prems(1) have a: "\<not> atom_matches a x" and ps: "\<forall>p \<in> set ps. \<not> atom_matches (piece_atom p) x"
    by auto
  from Cons.prems(2) have "\<exists>k \<in> set [lo..<Suc hi]. k \<le> length v
        \<and> list_all (atom_matches a) (take k v) \<and> lang ps (drop k v)"
    unfolding p lang.simps .
  then obtain k where k: "list_all (atom_matches a) (take k v)" "lang ps (drop k v)"
    by auto
  from k(1) a have "x \<notin> set (take k v)" by (auto simp: list_all_iff)
  moreover from Cons.IH [OF ps k(2)] have "x \<notin> set (drop k v)" .
  moreover have "set v = set (take k v) \<union> set (drop k v)"
    by (metis append_take_drop_id set_append)
  ultimately show ?case by simp
qed

lemma fixed_width_pattern:
  assumes "fixed_width F"
  shows "\<forall>p \<in> set (map token_piece (tokenize F)). fixed_piece p"
    and "\<forall>c. Chr c \<in> piece_atom ` set (map token_piece (tokenize F)) \<longrightarrow> \<not> is_digit c"
    and "\<forall>p \<in> set (map token_piece (tokenize F)). \<not> atom_matches (piece_atom p) CHR ''$''"
proof -
  from assms have ft: "\<forall>t \<in> set (tokenize F). fixed_token t"
    by (simp add: fixed_width_def list_all_iff)
  have 1: "fixed_piece (token_piece t)" if "fixed_token t" for t
    using that by (cases t) simp_all
  have 2: "\<not> is_digit c" if "fixed_token t" "piece_atom (token_piece t) = Chr c" for t c
    using that by (cases t) simp_all
  have 3: "\<not> atom_matches (piece_atom (token_piece t)) CHR ''$''" if "fixed_token t" for t
    using that by (cases t) (auto simp: is_digit_def)
  show "\<forall>p \<in> set (map token_piece (tokenize F)). fixed_piece p"
    using ft 1 by auto
  show "\<forall>c. Chr c \<in> piece_atom ` set (map token_piece (tokenize F)) \<longrightarrow> \<not> is_digit c"
    using ft 2 by (auto simp: image_iff)
  show "\<forall>p \<in> set (map token_piece (tokenize F)). \<not> atom_matches (piece_atom p) CHR ''$''"
    using ft 3 by auto
qed


lemma alike_refl: "list_all2 (alike A) s s"
  by (rule list_all2_refl) (simp add: alike_def)

lemma exec_after_replacement:
  assumes fw: "fixed_width F"
    and lv: "lang (map token_piece (tokenize F)) v"
    and ex: "exec (map token_piece (tokenize F)) name = Some (i, n)"
  shows "exec (map token_piece (tokenize F)) (take i name @ v @ drop (i + n) name) = Some (i, n)
       \<and> take n (drop i (take i name @ v @ drop (i + n) name)) = v
       \<and> CHR ''$'' \<notin> set v"
proof -
  let ?r = "map token_piece (tokenize F)"
  let ?A = "piece_atom ` set ?r"
  let ?m = "take n (drop i name)"
  note fp = fixed_width_pattern [OF fw]
  from exec_Some [OF ex] have occ: "occurs ?r name i n" by simp
  then have le: "i + n \<le> length name" and lm: "lang ?r ?m" by (simp_all add: occurs_def)
  have al: "list_all2 (alike ?A) ?m v"
    using fp(2) fp(1) lm lv by (rule lang_fixed_alike)
  then have len: "length v = n" using le by (auto dest: list_all2_lengthD)
  have name: "name = take i name @ ?m @ drop (i + n) name"
    by (metis add.commute append_take_drop_id drop_drop)
  have "list_all2 (alike ?A) (take i name @ ?m @ drop (i + n) name)
          (take i name @ v @ drop (i + n) name)"
    by (intro list_all2_appendI alike_refl al)
  then have "exec ?r (take i name @ ?m @ drop (i + n) name)
        = exec ?r (take i name @ v @ drop (i + n) name)"
    by (rule exec_alike) simp
  with name ex have 1: "exec ?r (take i name @ v @ drop (i + n) name) = Some (i, n)"
    by simp
  have 2: "take n (drop i (take i name @ v @ drop (i + n) name)) = v"
    using le len by simp
  have 3: "CHR ''$'' \<notin> set v" using fp(3) lv by (rule lang_avoids)
  from 1 2 3 show ?thesis by (intro conjI)
qed


lemma lang_ISO:
  "lang [Piece Digit 4 4, Piece (Chr CHR ''-'') 1 1, Piece Digit 2 2,
         Piece (Chr CHR ''-'') 1 1, Piece Digit 2 2] ''2024-11-30''"
  by code_simp

lemma pattern_DMY:
  "createDatePatternFromFormat ''DD-MM-YYYY''
   = Inr [Piece Digit 2 2, Piece (Chr CHR ''-'') 1 1, Piece Digit 2 2,
          Piece (Chr CHR ''-'') 1 1, Piece Digit 4 4]"
  by (simp add: createDatePatternFromFormat_tokens)

lemma exec_Note_old:
  "exec [Piece Digit 2 2, Piece (Chr CHR ''-'') 1 1, Piece Digit 2 2,
         Piece (Chr CHR ''-'') 1 1, Piece Digit 4 4] ''Note 01-05-2023'' = Some (5, 10)"
  by code_simp

lemma exec_Note_new:
  "exec [Piece Digit 2 2, Piece (Chr CHR ''-'') 1 1, Piece Digit 2 2,
         Piece (Chr CHR ''-'') 1 1, Piece Digit 4 4] ''Note 30-11-2024'' = Some (5, 10)"
  by code_simp

lemma exec_Daily_old:
  "exec [Piece Digit 4 4, Piece Digit 2 2, Piece Digit 2 2] ''Daily 20230501'' = Some (6, 8)"
  by code_simp

lemma exec_Daily_new:
  "exec [Piece Digit 4 4, Piece Digit 2 2, Piece Digit 2 2] ''Daily 20241130'' = Some (6, 8)"
  by code_simp

lemma digit_chars_table:
  "list_all (\<lambda>k. is_digit (digit_char k) \<and> digit_val (digit_char k) = k) [0..<10]"
  by code_simp

lemma digit_char_digit:
  assumes "k < 10"
  shows "is_digit (digit_char k) \<and> digit_val (digit_char k) = k"
proof -
  from assms have "k \<in> set [0..<10]" by simp
  with digit_chars_table show ?thesis by (simp only: list_all_iff)
qed

lemma dec_string_small: "n < 10 \<Longrightarrow> dec_string n = [digit_char n]"
  by (subst dec_string.simps) (simp del: dec_string.simps)

lemma dec_string_large:
  "\<not> n < 10 \<Longrightarrow> dec_string n = dec_string (n div 10) @ [digit_char (n mod 10)]"
  by (subst dec_string.simps) (simp del: dec_string.simps)

lemma dec_string_digits: "list_all is_digit (dec_string n)"
proof (induction n rule: dec_string.induct)
  case (1 n)
  show ?case
  proof (cases "n < 10")
    case True
    then show ?thesis using digit_char_digit [of n] by (simp only: dec_string_small) (simp del: dec_string.simps)
  next
    case False
    have "n mod 10 < 10" by simp
    then have "is_digit (digit_char (n mod 10))" using digit_char_digit by blast
    moreover from False have "list_all is_digit (dec_string (n div 10))" by (rule 1)
    ultimately show ?thesis by (simp only: dec_string_large [OF False]) (simp del: dec_string.simps)
  qed
qed

lemma dec_value_dec_string: "dec_value (dec_string n) = n"
proof (induction n rule: dec_string.induct)
  case (1 n)
  show ?case
  proof (cases "n < 10")
    case True
    then show ?thesis
      using digit_char_digit [of n] by (simp only: dec_string_small) (simp add: dec_value_def del: dec_string.simps)
  next
    case False
    have "n mod 10 < 10" by simp
    then have d: "digit_val (digit_char (n mod 10)) = n mod 10" using digit_char_digit by blast
    from False have ih: "dec_value (dec_string (n div 10)) = n div 10" by (rule 1)
    show ?thesis by (simp only: dec_string_large [OF False] dec_value_snoc ih d) (simp del: dec_string.simps)
  qed
qed


lemma length_dec_string: "n < 10 ^ k \<Longrightarrow> 0 < k \<Longrightarrow> length (dec_string n) \<le> k"
proof (induction n arbitrary: k rule: dec_string.induct)
  case (1 n)
  show ?case
  proof (cases "n < 10")
    case True
    with 1(3) show ?thesis by (simp only: dec_string_small) (simp del: dec_string.simps)
  next
    case False
    obtain j where k: "k = Suc j" using 1(3) by (cases k) auto
    from 1(2) have "n < 10 * 10 ^ j" unfolding k by simp
    then have a: "n div 10 < 10 ^ j" by (simp add: div_less_iff_less_mult mult.commute)
    have b: "0 < j"
    proof (rule ccontr)
      assume "\<not> 0 < j"
      with k 1(2) False show False by simp
    qed
    from False a b have "length (dec_string (n div 10)) \<le> j" by (rule 1(1))
    then show ?thesis unfolding k by (simp only: dec_string_large [OF False]) (simp del: dec_string.simps)
  qed
qed

lemma dec_value_zeros: "dec_value (replicate z CHR ''0'' @ s) = dec_value s"
proof -
  have "foldl (\<lambda>a c. 10 * a + digit_val c) 0 (replicate z CHR ''0'') = 0"
    by (induction z) (simp_all add: digit_val_def)
  then show ?thesis by (simp add: dec_value_def)
qed

lemma zeroFill_fits:
  assumes "n < 10 ^ k" and "0 < k"
  shows "length (zeroFill n k) = k" and "list_all is_digit (zeroFill n k)"
    and "dec_value (zeroFill n k) = n"
proof -
  from length_dec_string [OF assms] show "length (zeroFill n k) = k"
    by (simp add: zeroFill_def del: dec_string.simps)
  have "is_digit CHR ''0''" by (simp add: is_digit_def)
  then show "list_all is_digit (zeroFill n k)"
    using dec_string_digits [of n] by (auto simp add: zeroFill_def list_all_iff simp del: dec_string.simps)
  show "dec_value (zeroFill n k) = n"
    by (simp only: zeroFill_def dec_value_zeros dec_value_dec_string)
qed

lemma take_digits_zeroFill:
  assumes "n < 10 ^ k" and "0 < k"
  shows "take_digits k (zeroFill n k @ rest) = Some (n, rest)"
  using zeroFill_fits [OF assms] by (simp add: take_digits_def del: dec_string.simps)


lemma valid_date_bounds:
  assumes "valid_date d"
  shows "month d < 10 ^ 2" and "day d < 10 ^ 2"
proof -
  from assms show "month d < 10 ^ 2" by (simp add: valid_date_def)
  have "days_in_month (year d) (month d) \<le> 31" by (simp add: days_in_month_def)
  with assms show "day d < 10 ^ 2" by (simp add: valid_date_def)
qed

lemma read_token_render:
  assumes "plain_token t" and "valid_date d" and "year d < 10 ^ 4"
  shows "read_token t f (render_token d t @ rest) = Some (store d f t, rest)"
proof (cases t)
  case Year4
  then show ?thesis using take_digits_zeroFill [OF assms(3), of rest] by simp
next
  case Month2
  then show ?thesis
    using take_digits_zeroFill [OF valid_date_bounds(1) [OF assms(2)], of rest] by simp
next
  case Day2
  then show ?thesis
    using take_digits_zeroFill [OF valid_date_bounds(2) [OF assms(2)], of rest] by simp
next
  case (Literal c)
  then show ?thesis by simp
qed (use assms(1) in simp_all)

lemma read_tokens_render:
  assumes "valid_date d" and "year d < 10 ^ 4"
  shows "list_all plain_token ts \<Longrightarrow>
         read_tokens ts f (concat (map (render_token d) ts)) = Some (foldl (store d) f ts)"
proof (induction ts arbitrary: f)
  case Nil
  then show ?case by simp
next
  case (Cons t ts)
  then have t: "plain_token t" and ts: "list_all plain_token ts" by simp_all
  have "read_token t f (render_token d t @ concat (map (render_token d) ts))
        = Some (store d f t, concat (map (render_token d) ts))"
    using t assms by (rule read_token_render)
  with Cons.IH [OF ts, of "store d f t"] show ?case by simp
qed

lemma foldl_store_fields:
  "fyear (foldl (store d) f ts) = (if Year4 \<in> set ts then Some (year d) else fyear f)"
  "fmonth (foldl (store d) f ts) = (if Month2 \<in> set ts then Some (month d) else fmonth f)"
  "fday (foldl (store d) f ts) = (if Day2 \<in> set ts then Some (day d) else fday f)"
proof (induction ts arbitrary: f)
  case Nil
  { case 1 show ?case by simp }
  { case 2 show ?case by simp }
  { case 3 show ?case by simp }
next
  case (Cons t ts)
  { case 1 show ?case using Cons.IH(1) [of "store d f t"] by (cases t) auto }
  { case 2 show ?case using Cons.IH(2) [of "store d f t"] by (cases t) auto }
  { case 3 show ?case using Cons.IH(3) [of "store d f t"] by (cases t) auto }
qed

lemma expressible_plain:
  assumes "list_all plain_token (tokenize F)"
    and "Year4 \<in> set (tokenize F)" and "Month2 \<in> set (tokenize F)" and "Day2 \<in> set (tokenize F)"
    and "valid_date d" and "year d < 10 ^ 4"
  shows "strict_parse today (render (Valid d) F) F = Valid d"
proof -
  let ?f0 = "\<lparr>fyear = None, fmonth = None, fday = None\<rparr>"
  let ?g = "foldl (store d) ?f0 (tokenize F)"
  have r: "read_tokens (tokenize F) ?f0 (render (Valid d) F) = Some ?g"
    using read_tokens_render [OF assms(5,6) assms(1), of ?f0] by (simp add: render_def)
  have "complete today ?g = d"
    using assms(2,3,4) by (simp add: complete_def foldl_store_fields)
  with r assms(5) show ?thesis by (simp add: strict_parse_def)
qed


lemma expressible_full:
  assumes "full_format F" and "valid_date d" and "year d < 10000"
  shows "strict_parse today (render (Valid d) F) F = Valid d"
  using assms by (intro expressible_plain) (simp_all add: full_format_def)

lemma strict_parse_lang:
  assumes "strict_parse today s F \<noteq> Invalid"
  shows "lang (map token_piece (tokenize F)) s"
proof -
  from strict_parse_whole_match [OF assms]
  have "exec (map token_piece (tokenize F)) s = Some (0, length s)" .
  from exec_Some [OF this] have "occurs (map token_piece (tokenize F)) s 0 (length s)" by simp
  then show ?thesis by (simp add: occurs_def)
qed

lemma tokenize_ISO:
  "tokenize ''YYYY-MM-DD'' = [Year4, Literal CHR ''-'', Month2, Literal CHR ''-'', Day2]"
  by simp

lemma render_ISO_not_digits:
  "\<not> list_all is_digit (render (Valid d) ''YYYY-MM-DD'')"
  by (simp add: render_def tokenize_ISO is_digit_def del: tokenize.simps)


lemma renamed_file_reads_rendering:
  assumes "fixed_width (dateFormat settings)"
    and "v = format lib (moment lib (get fm (dateProperty settings))) (dateFormat settings)"
    and "lang (map token_piece (tokenize (dateFormat settings))) v"
    and "updateFilename lib settings (Some fm) tfile = Inr (Some path)"
  shows "\<exists>newName. replaceDateInFilename settings (basename tfile) v = Inr newName
          \<and> newName \<noteq> basename tfile
          \<and> updateFrontmatter lib settings (tfile\<lparr>basename := newName\<rparr>) fm
              = (if \<not> isValid lib (moment_strict lib v (dateFormat settings)) then Inr None
                 else if get fm (dateProperty settings)
                         = formatFrontmatterDate lib settings
                             (moment_strict lib v (dateFormat settings))
                 then Inr (Some fm)
                 else Inr (Some (fm(dateProperty settings \<mapsto>
                        formatFrontmatterDate lib settings
                          (moment_strict lib v (dateFormat settings))))))"
proof -
  let ?F = "dateFormat settings"
  let ?r = "map token_piece (tokenize ?F)"
  let ?name = "basename tfile"
  let ?new = "if test ?r ?name then replace ?name ?r v else ?name"
  have rd: "replaceDateInFilename settings ?name v = Inr ?new"
    by (rule replaceDateInFilename_pattern)
  from assms(4) have ne: "?new \<noteq> ?name"
    by (auto simp: updateFilename_def Let_def rd assms(2) [symmetric] split: if_splits)
  then have t: "test ?r ?name" by (auto split: if_splits)
  then obtain i n where ex: "exec ?r ?name = Some (i, n)"
    by (auto simp: test_def)
  note ea = exec_after_replacement [OF assms(1) assms(3) ex]
  let ?n = "take i ?name @ v @ drop (i + n) ?name"
  from ea have nd: "CHR ''$'' \<notin> set v" by simp
  have new: "?new = ?n"
    using t ex by (simp add: replace_def getSubstitution_plain [OF nd])
  from ea have e: "extractDateFromFilename lib settings ?n
      = (if isValid lib (moment_strict lib v ?F) then Inr (Some (moment_strict lib v ?F))
         else Inr None)"
    by (simp add: extractDateFromFilename_pattern)
  have "updateFrontmatter lib settings (tfile\<lparr>basename := ?n\<rparr>) fm
              = (if \<not> isValid lib (moment_strict lib v ?F) then Inr None
                 else if get fm (dateProperty settings)
                         = formatFrontmatterDate lib settings (moment_strict lib v ?F)
                 then Inr (Some fm)
                 else Inr (Some (fm(dateProperty settings \<mapsto>
                        formatFrontmatterDate lib settings (moment_strict lib v ?F)))))"
    by (simp add: updateFrontmatter_def e Let_def)
  with rd ne new show ?thesis by (intro exI [of _ ?n]) (simp only:, simp)
qed

lemma default_format_stable:
  assumes F: "dateFormat settings = ''YYYY-MM-DD''"
    and st: "get fm (dateProperty settings) = JStr (render (Valid d) ''YYYY-MM-DD'')"
    and d: "valid_date d" "year d < 10000"
    and u: "updateFilename (window_moment today) settings (Some fm) tfile = Inr (Some path)"
  shows "\<exists>newName. replaceDateInFilename settings (basename tfile)
                      (render (Valid d) ''YYYY-MM-DD'') = Inr newName
          \<and> newName \<noteq> basename tfile
          \<and> updateFrontmatter (window_moment today) settings (tfile\<lparr>basename := newName\<rparr>) fm
              = Inr (Some fm)"
proof -
  let ?lib = "window_moment today"
  let ?s = "render (Valid d) ''YYYY-MM-DD''"
  have full: "full_format ''YYYY-MM-DD''"
    by (simp add: full_format_def tokenize_ISO del: tokenize.simps)
  have sp: "strict_parse today ?s ''YYYY-MM-DD'' = Valid d"
    using full d by (rule expressible_full)
  have fw: "fixed_width (dateFormat settings)"
    unfolding F by (simp add: fixed_width_def tokenize_ISO is_digit_def del: tokenize.simps)
  have m: "moment ?lib (get fm (dateProperty settings)) = Valid d"
    by (simp add: st window_moment_def permissive_parse_def sp)
  have v: "?s = format ?lib (moment ?lib (get fm (dateProperty settings))) (dateFormat settings)"
    unfolding m F by (simp add: window_moment_def)
  have l: "lang (map token_piece (tokenize (dateFormat settings))) ?s"
    unfolding F using sp by (intro strict_parse_lang [of today]) simp
  have ms: "moment_strict ?lib ?s (dateFormat settings) = Valid d"
    unfolding F by (simp add: window_moment_def sp)
  have iv: "isValid ?lib (Valid d)" by (simp add: window_moment_def)
  have fd: "formatFrontmatterDate ?lib settings (Valid d) = JStr ?s"
    using render_ISO_not_digits [of d]
    by (simp add: formatFrontmatterDate_def F window_moment_def)
  from renamed_file_reads_rendering [OF fw v l u] show ?thesis
    unfolding ms by (simp only: iv fd st if_True if_False simp_thms)
qed

section \<open>The claims\<close>

text \<open>
  C4: the pattern text of a format is its tokens' pattern texts in the order of the
  format, where the format is read from the left with the priority YYYY, YY, MM, M, DD,
  D: YYYY stands for exactly 4 digits, YY, MM and DD for exactly 2, M and D for 1 or 2,
  any other character for itself (with a backslash when it is special). The constructor
  accepts the text, and the pattern is the sequence of these pieces; the fragment has no
  anchor, and a pattern that matches in a string matches in every string around it. The
  pattern of \<^verbatim>\<open>YYYY-MM-DD\<close> matches all of \<^verbatim>\<open>2024-01-05\<close>, from index 0, and does not match
  in \<^verbatim>\<open>24-01-05\<close>.
\<close>

theorem createDatePatternFromFormat_priority:
  "datePatternSource F = concat (map token_text (tokenize F))
   \<and> createDatePatternFromFormat F = Inr (map token_piece (tokenize F))
   \<and> (\<forall>r s p q. createDatePatternFromFormat F = Inr r \<longrightarrow> test r s \<longrightarrow> test r (p @ s @ q))
   \<and> (\<exists>r. createDatePatternFromFormat ''YYYY-MM-DD'' = Inr r
          \<and> match0 ''2024-01-05'' r = Some ''2024-01-05''
          \<and> exec r ''2024-01-05'' = Some (0, 10)
          \<and> \<not> test r ''24-01-05'')"
proof (intro conjI)
  show "datePatternSource F = concat (map token_text (tokenize F))"
    by (simp add: datePatternSource_substitute datePatternSource_tokens_aux)
  show "createDatePatternFromFormat F = Inr (map token_piece (tokenize F))"
    by (rule createDatePatternFromFormat_tokens)
  show "\<forall>r s p q. createDatePatternFromFormat F = Inr r \<longrightarrow> test r s \<longrightarrow> test r (p @ s @ q)"
    using test_embedded by blast
  let ?r = "[Piece Digit 4 4, Piece (Chr CHR ''-'') 1 1, Piece Digit 2 2,
             Piece (Chr CHR ''-'') 1 1, Piece Digit 2 2]"
  have "createDatePatternFromFormat ''YYYY-MM-DD'' = Inr ?r"
    by (simp add: createDatePatternFromFormat_tokens)
  moreover have "exec ?r ''2024-01-05'' = Some (0, 10)"
    by code_simp
  moreover from this have "match0 ''2024-01-05'' ?r = Some ''2024-01-05''"
    by (simp add: match0_def)
  moreover have "\<not> test ?r ''24-01-05''"
    by code_simp
  ultimately show "\<exists>r. createDatePatternFromFormat ''YYYY-MM-DD'' = Inr r
          \<and> match0 ''2024-01-05'' r = Some ''2024-01-05''
          \<and> exec r ''2024-01-05'' = Some (0, 10)
          \<and> \<not> test r ''24-01-05''"
    by blast
qed

theorem createDatePatternFromFormat_priority_witness:
  "datePatternSource ''D.M.YY (YYYYY)''
     = digits12 @ [bslash, CHR ''.''] @ digits12 @ [bslash, CHR ''.''] @ digits2
       @ '' '' @ [bslash, CHR ''(''] @ digits4 @ ''Y'' @ [bslash, CHR '')'']
   \<and> createDatePatternFromFormat ''D.M.YY''
     = Inr [Piece Digit 1 2, Piece (Chr CHR ''.'') 1 1, Piece Digit 1 2,
            Piece (Chr CHR ''.'') 1 1, Piece Digit 2 2]
   \<and> test [Piece Digit 1 2, Piece (Chr CHR ''.'') 1 1, Piece Digit 1 2,
            Piece (Chr CHR ''.'') 1 1, Piece Digit 2 2] ''5.11.24''
   \<and> test [Piece Digit 1 2, Piece (Chr CHR ''.'') 1 1, Piece Digit 1 2,
            Piece (Chr CHR ''.'') 1 1, Piece Digit 2 2] (''Trip '' @ ''5.11.24'' @ '' notes'')"
proof -
  let ?r = "[Piece Digit 1 2, Piece (Chr CHR ''.'') 1 1, Piece Digit 1 2,
             Piece (Chr CHR ''.'') 1 1, Piece Digit 2 2]"
  have t: "test ?r ''5.11.24''"
    by code_simp
  have 1: "datePatternSource ''D.M.YY (YYYYY)''
     = digits12 @ [bslash, CHR ''.''] @ digits12 @ [bslash, CHR ''.''] @ digits2
       @ '' '' @ [bslash, CHR ''(''] @ digits4 @ ''Y'' @ [bslash, CHR '')'']"
    using createDatePatternFromFormat_priority [of "''D.M.YY (YYYYY)''"]
    by (simp add: special_def bslash_def)
  have 2: "createDatePatternFromFormat ''D.M.YY'' = Inr ?r"
    using createDatePatternFromFormat_priority [of "''D.M.YY''"] by simp
  have "test ?r (''Trip '' @ ''5.11.24'' @ '' notes'')"
    using createDatePatternFromFormat_priority [of "''D.M.YY''"] 2 t by blast
  with 1 2 t show ?thesis by (intro conjI)
qed



text \<open>
  C9: when the basename that the Filename Rewriter computes is the current basename,
  the frontmatter-changed handler requests no rename; that is so, in particular,
  whenever no substring of the basename matches the compiled pattern.
\<close>

theorem updateFilename_unchanged_name:
  "(replaceDateInFilename settings (basename tfile)
       (format lib (moment lib (get fm (dateProperty settings))) (dateFormat settings))
      = Inr (basename tfile)
     \<longrightarrow> updateFilename lib settings (Some fm) tfile = Inr None)
   \<and> ((\<exists>r. createDatePatternFromFormat (dateFormat settings) = Inr r
            \<and> (\<forall>i n. \<not> occurs r (basename tfile) i n))
        \<longrightarrow> updateFilename lib settings cache tfile = Inr None)"
proof (intro conjI impI)
  assume "replaceDateInFilename settings (basename tfile)
       (format lib (moment lib (get fm (dateProperty settings))) (dateFormat settings))
      = Inr (basename tfile)"
  then show "updateFilename lib settings (Some fm) tfile = Inr None"
    by (simp add: updateFilename_def Let_def)
next
  assume "\<exists>r. createDatePatternFromFormat (dateFormat settings) = Inr r
            \<and> (\<forall>i n. \<not> occurs r (basename tfile) i n)"
  then have "\<forall>i n. \<not> occurs (map token_piece (tokenize (dateFormat settings))) (basename tfile) i n"
    by (simp add: createDatePatternFromFormat_tokens)
  then have "replaceDateInFilename settings (basename tfile) newDate = Inr (basename tfile)"
    for newDate
    by (rule replaceDateInFilename_no_match)
  then show "updateFilename lib settings cache tfile = Inr None"
    by (simp add: updateFilename_def Let_def split: option.splits)
qed


theorem updateFilename_unchanged_name_witness:
  "updateFilename (window_moment example_today)
     \<lparr>dateProperty = ''date'', dateFormat = ''YYYY-MM-DD''\<rparr>
     (Some [''date'' \<mapsto> JStr ''2024-11-30''])
     \<lparr>basename = ''Shopping list'', extension = ''md'', parent = Some ''notes''\<rparr>
   = Inr None"
proof -
  let ?r = "[Piece Digit 4 4, Piece (Chr CHR ''-'') 1 1, Piece Digit 2 2,
             Piece (Chr CHR ''-'') 1 1, Piece Digit 2 2]"
  have "exec ?r ''Shopping list'' = None" by code_simp
  then have "\<forall>i n. \<not> occurs ?r ''Shopping list'' i n" by (rule iffD1 [OF exec_None])
  with pattern_YMD
  have "\<exists>r. createDatePatternFromFormat ''YYYY-MM-DD'' = Inr r
           \<and> (\<forall>i n. \<not> occurs r ''Shopping list'' i n)"
    by blast
  then show ?thesis
    using updateFilename_unchanged_name
      [where settings = "\<lparr>dateProperty = ''date'', dateFormat = ''YYYY-MM-DD''\<rparr>"
         and tfile = "\<lparr>basename = ''Shopping list'', extension = ''md'', parent = Some ''notes''\<rparr>"
         and lib = "window_moment example_today"
         and cache = "Some [''date'' \<mapsto> JStr ''2024-11-30'']"]
    by simp
qed

text \<open>
  C8: when the Date Extractor finds a date in the new basename, the rename handler
  stores the new FrontmatterDateValue under dateProperty if it differs from the value
  stored there, and leaves the mapping as it is if it is equal; the mapping changes if
  and only if the two values differ.
\<close>

theorem updateFrontmatter_writes_iff_differs:
  assumes "extractDateFromFilename lib settings (basename tfile) = Inr (Some date)"
  shows "(get frontmatter (dateProperty settings) \<noteq> formatFrontmatterDate lib settings date
          \<longrightarrow> updateFrontmatter lib settings tfile frontmatter
              = Inr (Some (frontmatter
                     (dateProperty settings \<mapsto> formatFrontmatterDate lib settings date))))
       \<and> (get frontmatter (dateProperty settings) = formatFrontmatterDate lib settings date
          \<longrightarrow> updateFrontmatter lib settings tfile frontmatter = Inr (Some frontmatter))
       \<and> (\<exists>fm'. updateFrontmatter lib settings tfile frontmatter = Inr (Some fm')
              \<and> (fm' \<noteq> frontmatter
                   \<longleftrightarrow> get frontmatter (dateProperty settings)
                         \<noteq> formatFrontmatterDate lib settings date))"
proof -
  let ?k = "dateProperty settings"
  let ?v = "formatFrontmatterDate lib settings date"
  have u: "updateFrontmatter lib settings tfile frontmatter
           = (if get frontmatter ?k \<noteq> ?v then Inr (Some (frontmatter(?k \<mapsto> ?v)))
              else Inr (Some frontmatter))"
    using assms by (simp add: updateFrontmatter_def Let_def)
  have "frontmatter(?k \<mapsto> ?v) \<noteq> frontmatter" if "get frontmatter ?k \<noteq> ?v"
  proof
    assume "frontmatter(?k \<mapsto> ?v) = frontmatter"
    then have "frontmatter ?k = Some ?v" by (metis fun_upd_same)
    with that show False by (simp add: get_def)
  qed
  with u show ?thesis by auto
qed


theorem updateFrontmatter_writes_iff_differs_witness:
  "updateFrontmatter (window_moment example_today)
     \<lparr>dateProperty = ''date'', dateFormat = ''YYYY-MM-DD''\<rparr>
     \<lparr>basename = ''Daily 2025-01-02'', extension = ''md'', parent = Some ''notes''\<rparr>
     [''date'' \<mapsto> JStr ''2024-11-30'']
   = Inr (Some [''date'' \<mapsto> JStr ''2025-01-02''])
   \<and> updateFrontmatter (window_moment example_today)
     \<lparr>dateProperty = ''date'', dateFormat = ''YYYY-MM-DD''\<rparr>
     \<lparr>basename = ''Daily 2025-01-02'', extension = ''md'', parent = Some ''notes''\<rparr>
     [''date'' \<mapsto> JStr ''2025-01-02'']
   = Inr (Some [''date'' \<mapsto> JStr ''2025-01-02''])"
proof -
  let ?st = "\<lparr>dateProperty = ''date'', dateFormat = ''YYYY-MM-DD''\<rparr>"
  let ?f = "\<lparr>basename = ''Daily 2025-01-02'', extension = ''md'', parent = Some ''notes''\<rparr>"
  have e: "extractDateFromFilename (window_moment example_today) ?st (basename ?f)
           = Inr (Some (Valid \<lparr>year = 2025, month = 1, day = 2\<rparr>))"
    by (simp add: extract_Daily)
  show ?thesis
    using updateFrontmatter_writes_iff_differs [OF e, of "[''date'' \<mapsto> JStr ''2024-11-30'']"]
          updateFrontmatter_writes_iff_differs [OF e, of "[''date'' \<mapsto> JStr ''2025-01-02'']"]
    by (simp add: format_Daily [unfolded One_nat_def] get_def)
qed



text \<open>
  C5: the Date Extractor never raises: the constructor accepts the pattern text of
  every format. It returns null exactly when no substring of the filename matches the
  compiled pattern, or when the first match (the match that starts leftmost) is not a
  valid date under the strict parse. A later match is not looked at.
\<close>

theorem extractDateFromFilename_null_iff:
  "\<exists>r. createDatePatternFromFormat (dateFormat settings) = Inr r
     \<and> (\<exists>res. extractDateFromFilename lib settings filename = Inr res)
     \<and> (extractDateFromFilename lib settings filename = Inr None
          \<longleftrightarrow> (\<forall>i n. \<not> occurs r filename i n)
              \<or> (\<exists>i n. exec r filename = Some (i, n)
                     \<and> occurs r filename i n
                     \<and> (\<forall>j < i. \<forall>m. \<not> occurs r filename j m)
                     \<and> \<not> isValid lib (moment_strict lib (take n (drop i filename))
                                        (dateFormat settings))))"
proof -
  let ?r = "map token_piece (tokenize (dateFormat settings))"
  let ?e = "extractDateFromFilename lib settings filename"
  let ?none = "\<forall>i n. \<not> occurs ?r filename i n"
  let ?bad = "\<exists>i n. exec ?r filename = Some (i, n)
                     \<and> occurs ?r filename i n
                     \<and> (\<forall>j < i. \<forall>m. \<not> occurs ?r filename j m)
                     \<and> \<not> isValid lib (moment_strict lib (take n (drop i filename))
                                        (dateFormat settings))"
  have c: "createDatePatternFromFormat (dateFormat settings) = Inr ?r"
    by (rule createDatePatternFromFormat_tokens)
  have "(\<exists>res. ?e = Inr res) \<and> (?e = Inr None \<longleftrightarrow> ?none \<or> ?bad)"
  proof (cases "exec ?r filename")
    case None
    then have "?e = Inr None" by (simp add: extractDateFromFilename_pattern)
    moreover from None have ?none by (rule iffD1 [OF exec_None])
    ultimately show ?thesis by simp
  next
    case (Some x)
    obtain i n where x: "x = (i, n)" by (cases x)
    with Some have ex: "exec ?r filename = Some (i, n)" by simp
    note es = exec_Some [OF ex]
    from es have occ: "occurs ?r filename i n" by simp
    then have nn: "\<not> ?none" by blast
    let ?m = "moment_strict lib (take n (drop i filename)) (dateFormat settings)"
    have e: "?e = (if isValid lib ?m then Inr (Some ?m) else Inr None)"
      using ex by (simp add: extractDateFromFilename_pattern)
    have "?bad \<longleftrightarrow> \<not> isValid lib ?m"
      using ex es by auto
    with e nn show ?thesis by auto
  qed
  with c show ?thesis by blast
qed


theorem extractDateFromFilename_null_iff_witness:
  "extractDateFromFilename (window_moment example_today)
     \<lparr>dateProperty = ''date'', dateFormat = ''YYYY-MM-DD''\<rparr> ''Daily 2025-13-02 2025-01-02''
   = Inr None
   \<and> exec [Piece Digit 4 4, Piece (Chr CHR ''-'') 1 1, Piece Digit 2 2,
            Piece (Chr CHR ''-'') 1 1, Piece Digit 2 2] ''Daily 2025-13-02 2025-01-02''
     = Some (6, 10)
   \<and> strict_parse example_today ''2025-13-02'' ''YYYY-MM-DD'' = Invalid"
proof -
  let ?lib = "window_moment example_today"
  let ?st = "\<lparr>dateProperty = ''date'', dateFormat = ''YYYY-MM-DD''\<rparr>"
  let ?fn = "''Daily 2025-13-02 2025-01-02''"
  let ?r = "[Piece Digit 4 4, Piece (Chr CHR ''-'') 1 1, Piece Digit 2 2,
             Piece (Chr CHR ''-'') 1 1, Piece Digit 2 2]"
  have ex: "exec ?r ?fn = Some (6, 10)" by code_simp
  have sp: "strict_parse example_today ''2025-13-02'' ''YYYY-MM-DD'' = Invalid"
    by (simp add: library_eval)
  then have bad: "\<not> isValid ?lib (moment_strict ?lib (take 10 (drop 6 ?fn)) (dateFormat ?st))"
    by (simp add: window_moment_def)
  from extractDateFromFilename_null_iff [where settings = ?st and lib = ?lib and filename = ?fn]
  obtain r where r: "createDatePatternFromFormat (dateFormat ?st) = Inr r"
    and iff: "extractDateFromFilename ?lib ?st ?fn = Inr None
          \<longleftrightarrow> (\<forall>i n. \<not> occurs r ?fn i n)
              \<or> (\<exists>i n. exec r ?fn = Some (i, n)
                     \<and> occurs r ?fn i n
                     \<and> (\<forall>j < i. \<forall>m. \<not> occurs r ?fn j m)
                     \<and> \<not> isValid ?lib (moment_strict ?lib (take n (drop i ?fn))
                                        (dateFormat ?st)))"
    by (elim exE conjE)
  from r have req: "r = ?r" using pattern_YMD by simp
  note es = exec_Some [OF ex]
  have "\<exists>i n. exec r ?fn = Some (i, n)
                     \<and> occurs r ?fn i n
                     \<and> (\<forall>j < i. \<forall>m. \<not> occurs r ?fn j m)
                     \<and> \<not> isValid ?lib (moment_strict ?lib (take n (drop i ?fn))
                                        (dateFormat ?st))"
    unfolding req
    using ex es bad by (intro exI [of _ 6] exI [of _ 10] conjI) simp_all
  then have "extractDateFromFilename ?lib ?st ?fn = Inr None"
    by (intro iffD2 [OF iff] disjI2)
  with ex sp show ?thesis by (intro conjI)
qed

text \<open>
  C1: with the default settings neither handler looks at the sentinel. A file named
  \<^verbatim>\<open>Daily 2025-01-02\<close> with empty frontmatter gets the key \<^verbatim>\<open>DEFAULT\<close> written on rename,
  and a file whose frontmatter has a key \<^verbatim>\<open>DEFAULT\<close> is renamed on a frontmatter change.
\<close>

theorem default_sentinel_counterexample:
  "updateFrontmatter (window_moment example_today) DEFAULT_SETTINGS
     \<lparr>basename = ''Daily 2025-01-02'', extension = ''md'', parent = Some ''notes''\<rparr>
     Map.empty
   = Inr (Some [''DEFAULT'' \<mapsto> JStr ''2025-01-02''])
   \<and> updateFilename (window_moment example_today) DEFAULT_SETTINGS
     (Some [''DEFAULT'' \<mapsto> JStr ''2024-11-30''])
     \<lparr>basename = ''Meeting 2023-05-01 notes'', extension = ''md'', parent = Some ''notes''\<rparr>
   = Inr (Some ''notes/Meeting 2024-11-30 notes.md'')"
proof (intro conjI)
  show "updateFrontmatter (window_moment example_today) DEFAULT_SETTINGS
     \<lparr>basename = ''Daily 2025-01-02'', extension = ''md'', parent = Some ''notes''\<rparr>
     Map.empty
   = Inr (Some [''DEFAULT'' \<mapsto> JStr ''2025-01-02''])"
    by (simp add: updateFrontmatter_def DEFAULT_SETTINGS_def extract_Daily
        format_Daily [unfolded One_nat_def] get_def)
  show "updateFilename (window_moment example_today) DEFAULT_SETTINGS
     (Some [''DEFAULT'' \<mapsto> JStr ''2024-11-30''])
     \<lparr>basename = ''Meeting 2023-05-01 notes'', extension = ''md'', parent = Some ''notes''\<rparr>
   = Inr (Some ''notes/Meeting 2024-11-30 notes.md'')"
    by (simp add: updateFilename_def DEFAULT_SETTINGS_def get_def format_ISO replace_Meeting)
qed

text \<open>
  C1, as the code has it: with dateProperty still \<^verbatim>\<open>DEFAULT\<close>, the handlers treat
  \<^verbatim>\<open>DEFAULT\<close> as an ordinary key. The frontmatter-changed handler requests no rename for a
  file with no frontmatter or with no truthy value under the key \<^verbatim>\<open>DEFAULT\<close>. The rename
  handler writes nothing when no date is extracted from the basename; when a date is
  extracted it stores the new value under the key \<^verbatim>\<open>DEFAULT\<close>, unless the value stored
  there is already equal.
\<close>

theorem default_sentinel_is_a_key:
  assumes "dateProperty settings = ''DEFAULT''"
  shows "updateFilename lib settings None tfile = Inr None
       \<and> (\<not> truthy (get fm ''DEFAULT'') \<longrightarrow> updateFilename lib settings (Some fm) tfile = Inr None)
       \<and> (extractDateFromFilename lib settings (basename tfile) = Inr None
            \<longrightarrow> updateFrontmatter lib settings tfile fm = Inr None)
       \<and> (\<forall>date. extractDateFromFilename lib settings (basename tfile) = Inr (Some date)
            \<longrightarrow> updateFrontmatter lib settings tfile fm
                = Inr (Some (if get fm ''DEFAULT'' \<noteq> formatFrontmatterDate lib settings date
                             then fm(''DEFAULT'' \<mapsto> formatFrontmatterDate lib settings date)
                             else fm)))"
  using assms by (simp add: updateFilename_def updateFrontmatter_def Let_def)

theorem default_sentinel_is_a_key_witness:
  "updateFilename (window_moment example_today) DEFAULT_SETTINGS
     (Some [''date'' \<mapsto> JStr ''2024-11-30''])
     \<lparr>basename = ''Meeting 2023-05-01 notes'', extension = ''md'', parent = Some ''notes''\<rparr>
   = Inr None
   \<and> updateFrontmatter (window_moment example_today) DEFAULT_SETTINGS
     \<lparr>basename = ''Daily 2025-01-02'', extension = ''md'', parent = Some ''notes''\<rparr>
     [''date'' \<mapsto> JStr ''2024-11-30'']
   = Inr (Some [''date'' \<mapsto> JStr ''2024-11-30'', ''DEFAULT'' \<mapsto> JStr ''2025-01-02''])"
proof -
  let ?lib = "window_moment example_today"
  let ?fm = "[''date'' \<mapsto> JStr ''2024-11-30'']"
  have d: "dateProperty DEFAULT_SETTINGS = ''DEFAULT''" by (simp add: DEFAULT_SETTINGS_def)
  have f: "dateFormat DEFAULT_SETTINGS = ''YYYY-MM-DD''" by (simp add: DEFAULT_SETTINGS_def)
  have e: "extractDateFromFilename ?lib DEFAULT_SETTINGS ''Daily 2025-01-02''
           = Inr (Some (Valid \<lparr>year = 2025, month = 1, day = 2\<rparr>))"
    using extract_Daily [of "''DEFAULT''"] by (simp add: DEFAULT_SETTINGS_def)
  have v: "formatFrontmatterDate ?lib DEFAULT_SETTINGS (Valid \<lparr>year = 2025, month = 1, day = 2\<rparr>)
           = JStr ''2025-01-02''"
    using format_Daily [of "''DEFAULT''"] by (simp add: DEFAULT_SETTINGS_def)
  have g: "get ?fm ''DEFAULT'' = JUndefined" by (simp add: get_def)
  note t1 = default_sentinel_is_a_key [OF d, where lib = ?lib and fm = ?fm
      and tfile = "\<lparr>basename = ''Meeting 2023-05-01 notes'', extension = ''md'', parent = Some ''notes''\<rparr>"]
  note t2 = default_sentinel_is_a_key [OF d, where lib = ?lib and fm = ?fm
      and tfile = "\<lparr>basename = ''Daily 2025-01-02'', extension = ''md'', parent = Some ''notes''\<rparr>"]
  from t1 g have 1: "updateFilename ?lib DEFAULT_SETTINGS (Some ?fm)
     \<lparr>basename = ''Meeting 2023-05-01 notes'', extension = ''md'', parent = Some ''notes''\<rparr>
     = Inr None"
    by simp
  from t2 e v g have 2: "updateFrontmatter ?lib DEFAULT_SETTINGS
     \<lparr>basename = ''Daily 2025-01-02'', extension = ''md'', parent = Some ''notes''\<rparr> ?fm
     = Inr (Some (?fm(''DEFAULT'' \<mapsto> JStr ''2025-01-02'')))"
    by simp
  from 1 2 show ?thesis by simp
qed

text \<open>
  C7, at the failing inputs: the replacement text is read as a template. With the
  replacement \<^verbatim>\<open>$&\<close> the filename comes back as it was, and with the format
  \<^verbatim>\<open>$$YYYY-MM-DD\<close> the file \<^verbatim>\<open>Bill $$2023-05-01\<close> is renamed to \<^verbatim>\<open>Bill $2024-11-30\<close>, one
  dollar sign short of the rendered date.
\<close>

theorem replaceDateInFilename_template:
  "replaceDateInFilename \<lparr>dateProperty = ''date'', dateFormat = ''YYYY-MM-DD''\<rparr>
     ''Meeting 2023-05-01 notes'' ''$&''
   = Inr ''Meeting 2023-05-01 notes''
   \<and> replaceDateInFilename \<lparr>dateProperty = ''date'', dateFormat = ''$$YYYY-MM-DD''\<rparr>
     ''Bill $$2023-05-01'' ''$$2024-11-30''
   = Inr ''Bill $2024-11-30''
   \<and> updateFilename (window_moment example_today)
     \<lparr>dateProperty = ''date'', dateFormat = ''$$YYYY-MM-DD''\<rparr>
     (Some [''date'' \<mapsto> JStr ''2024-11-30''])
     \<lparr>basename = ''Bill $$2023-05-01'', extension = ''md'', parent = Some ''notes''\<rparr>
   = Inr (Some ''notes/Bill $2024-11-30.md'')"
proof (intro conjI)
  show "replaceDateInFilename \<lparr>dateProperty = ''date'', dateFormat = ''YYYY-MM-DD''\<rparr>
     ''Meeting 2023-05-01 notes'' ''$&''
   = Inr ''Meeting 2023-05-01 notes''"
    using exec_Meeting by (simp add: replaceDateInFilename_pattern test_def replace_def)
  show r: "replaceDateInFilename \<lparr>dateProperty = ''date'', dateFormat = ''$$YYYY-MM-DD''\<rparr>
     ''Bill $$2023-05-01'' ''$$2024-11-30''
   = Inr ''Bill $2024-11-30''"
    using exec_Bill by (simp add: replaceDateInFilename_pattern test_def replace_def)
  show "updateFilename (window_moment example_today)
     \<lparr>dateProperty = ''date'', dateFormat = ''$$YYYY-MM-DD''\<rparr>
     (Some [''date'' \<mapsto> JStr ''2024-11-30''])
     \<lparr>basename = ''Bill $$2023-05-01'', extension = ''md'', parent = Some ''notes''\<rparr>
   = Inr (Some ''notes/Bill $2024-11-30.md'')"
    by (simp add: updateFilename_def get_def format_dollar r)
qed

text \<open>
  C3: the frontmatter holds the text \<^verbatim>\<open>2024-11-30\<close>. With the format \<^verbatim>\<open>DD-MM-YYYY\<close> the
  frontmatter-changed handler renames \<^verbatim>\<open>Note 01-05-2023\<close> to \<^verbatim>\<open>Note 30-11-2024\<close>, and the
  rename handler, run on the renamed file, replaces the stored value with the text
  \<^verbatim>\<open>30-11-2024\<close>. With the format \<^verbatim>\<open>YYYYMMDD\<close> it replaces the stored value with the
  number 20241130.
\<close>

theorem rename_then_write_counterexample:
  "updateFilename (window_moment example_today)
     \<lparr>dateProperty = ''date'', dateFormat = ''DD-MM-YYYY''\<rparr>
     (Some [''date'' \<mapsto> JStr ''2024-11-30''])
     \<lparr>basename = ''Note 01-05-2023'', extension = ''md'', parent = Some ''notes''\<rparr>
   = Inr (Some ''notes/Note 30-11-2024.md'')
   \<and> updateFrontmatter (window_moment example_today)
     \<lparr>dateProperty = ''date'', dateFormat = ''DD-MM-YYYY''\<rparr>
     \<lparr>basename = ''Note 30-11-2024'', extension = ''md'', parent = Some ''notes''\<rparr>
     [''date'' \<mapsto> JStr ''2024-11-30'']
   = Inr (Some [''date'' \<mapsto> JStr ''30-11-2024''])
   \<and> updateFilename (window_moment example_today)
     \<lparr>dateProperty = ''date'', dateFormat = ''YYYYMMDD''\<rparr>
     (Some [''date'' \<mapsto> JStr ''2024-11-30''])
     \<lparr>basename = ''Daily 20230501'', extension = ''md'', parent = Some ''notes''\<rparr>
   = Inr (Some ''notes/Daily 20241130.md'')
   \<and> updateFrontmatter (window_moment example_today)
     \<lparr>dateProperty = ''date'', dateFormat = ''YYYYMMDD''\<rparr>
     \<lparr>basename = ''Daily 20241130'', extension = ''md'', parent = Some ''notes''\<rparr>
     [''date'' \<mapsto> JStr ''2024-11-30'']
   = Inr (Some [''date'' \<mapsto> JNum 20241130])"
proof (intro conjI)
  show "updateFilename (window_moment example_today)
     \<lparr>dateProperty = ''date'', dateFormat = ''DD-MM-YYYY''\<rparr>
     (Some [''date'' \<mapsto> JStr ''2024-11-30''])
     \<lparr>basename = ''Note 01-05-2023'', extension = ''md'', parent = Some ''notes''\<rparr>
   = Inr (Some ''notes/Note 30-11-2024.md'')"
    using exec_Note_old
    by (simp add: updateFilename_def get_def replaceDateInFilename_pattern test_def
        replace_def library_eval)
  show "updateFrontmatter (window_moment example_today)
     \<lparr>dateProperty = ''date'', dateFormat = ''DD-MM-YYYY''\<rparr>
     \<lparr>basename = ''Note 30-11-2024'', extension = ''md'', parent = Some ''notes''\<rparr>
     [''date'' \<mapsto> JStr ''2024-11-30'']
   = Inr (Some [''date'' \<mapsto> JStr ''30-11-2024''])"
    using exec_Note_new
    by (simp add: updateFrontmatter_def get_def extractDateFromFilename_pattern
        formatFrontmatterDate_def library_eval)
  show "updateFilename (window_moment example_today)
     \<lparr>dateProperty = ''date'', dateFormat = ''YYYYMMDD''\<rparr>
     (Some [''date'' \<mapsto> JStr ''2024-11-30''])
     \<lparr>basename = ''Daily 20230501'', extension = ''md'', parent = Some ''notes''\<rparr>
   = Inr (Some ''notes/Daily 20241130.md'')"
    using exec_Daily_old
    by (simp add: updateFilename_def get_def replaceDateInFilename_pattern test_def
        replace_def library_eval)
  show "updateFrontmatter (window_moment example_today)
     \<lparr>dateProperty = ''date'', dateFormat = ''YYYYMMDD''\<rparr>
     \<lparr>basename = ''Daily 20241130'', extension = ''md'', parent = Some ''notes''\<rparr>
     [''date'' \<mapsto> JStr ''2024-11-30'']
   = Inr (Some [''date'' \<mapsto> JNum 20241130])"
    using exec_Daily_new
    by (simp add: updateFrontmatter_def get_def extractDateFromFilename_pattern
        formatFrontmatterDate_def library_eval)
qed

text \<open>
  C3, as the code has it: take a format of fixed-width tokens (YYYY, YY, MM, DD) and
  literal characters that are neither digits nor dollar signs, the default format
  included, and a stored value whose rendering matches the format. When the
  frontmatter-changed handler requests a rename, the rename handler, run on the renamed
  file, reads back the rendering that was put into the name. It leaves the frontmatter
  as it is when the stored value already is the Date Formatter's value of that
  rendering's date, and stores that value otherwise; it writes nothing when the
  rendering is not a valid date. In particular, under the format \<^verbatim>\<open>YYYY-MM-DD\<close> a stored
  value that is the \<^verbatim>\<open>YYYY-MM-DD\<close> text of a valid date with a year below 10000 is left as
  it is, whatever the file.
\<close>



theorem rename_then_write:
  "(fixed_width (dateFormat settings)
      \<and> v = format lib (moment lib (get fm (dateProperty settings))) (dateFormat settings)
      \<and> lang (map token_piece (tokenize (dateFormat settings))) v
      \<and> updateFilename lib settings (Some fm) tfile = Inr (Some path)
    \<longrightarrow> (\<exists>newName. replaceDateInFilename settings (basename tfile) v = Inr newName
          \<and> newName \<noteq> basename tfile
          \<and> updateFrontmatter lib settings (tfile\<lparr>basename := newName\<rparr>) fm
              = (if \<not> isValid lib (moment_strict lib v (dateFormat settings)) then Inr None
                 else if get fm (dateProperty settings)
                         = formatFrontmatterDate lib settings
                             (moment_strict lib v (dateFormat settings))
                 then Inr (Some fm)
                 else Inr (Some (fm(dateProperty settings \<mapsto>
                        formatFrontmatterDate lib settings
                          (moment_strict lib v (dateFormat settings))))))))
   \<and> (dateFormat settings = ''YYYY-MM-DD''
      \<and> get fm (dateProperty settings) = JStr (render (Valid d) ''YYYY-MM-DD'')
      \<and> valid_date d \<and> year d < 10000
      \<and> updateFilename (window_moment today) settings (Some fm) tfile = Inr (Some path)
    \<longrightarrow> (\<exists>newName. replaceDateInFilename settings (basename tfile)
                        (render (Valid d) ''YYYY-MM-DD'') = Inr newName
          \<and> newName \<noteq> basename tfile
          \<and> updateFrontmatter (window_moment today) settings
                (tfile\<lparr>basename := newName\<rparr>) fm = Inr (Some fm)))"
proof (intro conjI impI)
  assume h: "fixed_width (dateFormat settings)
      \<and> v = format lib (moment lib (get fm (dateProperty settings))) (dateFormat settings)
      \<and> lang (map token_piece (tokenize (dateFormat settings))) v
      \<and> updateFilename lib settings (Some fm) tfile = Inr (Some path)"
  note a = conjunct1 [OF h]
    and b = conjunct1 [OF conjunct2 [OF h]]
    and c = conjunct1 [OF conjunct2 [OF conjunct2 [OF h]]]
    and e = conjunct2 [OF conjunct2 [OF conjunct2 [OF h]]]
  from a b c e
  show "\<exists>newName. replaceDateInFilename settings (basename tfile) v = Inr newName
          \<and> newName \<noteq> basename tfile
          \<and> updateFrontmatter lib settings (tfile\<lparr>basename := newName\<rparr>) fm
              = (if \<not> isValid lib (moment_strict lib v (dateFormat settings)) then Inr None
                 else if get fm (dateProperty settings)
                         = formatFrontmatterDate lib settings
                             (moment_strict lib v (dateFormat settings))
                 then Inr (Some fm)
                 else Inr (Some (fm(dateProperty settings \<mapsto>
                        formatFrontmatterDate lib settings
                          (moment_strict lib v (dateFormat settings))))))"
    by (rule renamed_file_reads_rendering)
next
  assume h: "dateFormat settings = ''YYYY-MM-DD''
      \<and> get fm (dateProperty settings) = JStr (render (Valid d) ''YYYY-MM-DD'')
      \<and> valid_date d \<and> year d < 10000
      \<and> updateFilename (window_moment today) settings (Some fm) tfile = Inr (Some path)"
  note a = conjunct1 [OF h]
    and b = conjunct1 [OF conjunct2 [OF h]]
    and c = conjunct1 [OF conjunct2 [OF conjunct2 [OF h]]]
    and e = conjunct1 [OF conjunct2 [OF conjunct2 [OF conjunct2 [OF h]]]]
    and f = conjunct2 [OF conjunct2 [OF conjunct2 [OF conjunct2 [OF h]]]]
  from a b c e f
  show "\<exists>newName. replaceDateInFilename settings (basename tfile)
                        (render (Valid d) ''YYYY-MM-DD'') = Inr newName
          \<and> newName \<noteq> basename tfile
          \<and> updateFrontmatter (window_moment today) settings
                (tfile\<lparr>basename := newName\<rparr>) fm = Inr (Some fm)"
    by (rule default_format_stable)
qed

theorem rename_then_write_witness:
  "updateFilename (window_moment example_today)
     \<lparr>dateProperty = ''date'', dateFormat = ''YYYY-MM-DD''\<rparr>
     (Some [''date'' \<mapsto> JStr ''2024-11-30''])
     \<lparr>basename = ''Meeting 2023-05-01 notes'', extension = ''md'', parent = Some ''notes''\<rparr>
   = Inr (Some ''notes/Meeting 2024-11-30 notes.md'')
   \<and> updateFrontmatter (window_moment example_today)
     \<lparr>dateProperty = ''date'', dateFormat = ''YYYY-MM-DD''\<rparr>
     \<lparr>basename = ''Meeting 2024-11-30 notes'', extension = ''md'', parent = Some ''notes''\<rparr>
     [''date'' \<mapsto> JStr ''2024-11-30'']
   = Inr (Some [''date'' \<mapsto> JStr ''2024-11-30''])"
proof -
  let ?lib = "window_moment example_today"
  let ?st = "\<lparr>dateProperty = ''date'', dateFormat = ''YYYY-MM-DD''\<rparr>"
  let ?fm = "[''date'' \<mapsto> JStr ''2024-11-30'']"
  let ?f = "\<lparr>basename = ''Meeting 2023-05-01 notes'', extension = ''md'', parent = Some ''notes''\<rparr>"
  have fw: "fixed_width (dateFormat ?st)"
    by (simp add: fixed_width_def is_digit_def)
  have v: "''2024-11-30'' = format ?lib (moment ?lib (get ?fm (dateProperty ?st))) (dateFormat ?st)"
    by (simp add: get_def format_ISO)
  have l: "lang (map token_piece (tokenize (dateFormat ?st))) ''2024-11-30''"
    using lang_ISO by simp
  have u: "updateFilename ?lib ?st (Some ?fm) ?f = Inr (Some ''notes/Meeting 2024-11-30 notes.md'')"
    by (simp add: updateFilename_def get_def format_ISO replace_Meeting)
  have p: "moment_strict ?lib ''2024-11-30'' (dateFormat ?st)
           = Valid \<lparr>year = 2024, month = 11, day = 30\<rparr>"
    by (simp add: library_eval)
  have d: "formatFrontmatterDate ?lib ?st (Valid \<lparr>year = 2024, month = 11, day = 30\<rparr>)
           = JStr ''2024-11-30''"
    by (simp add: formatFrontmatterDate_def library_eval)
  have i: "isValid ?lib (Valid \<lparr>year = 2024, month = 11, day = 30\<rparr>)"
    by (simp add: window_moment_def)
  have "fixed_width (dateFormat ?st)
      \<and> ''2024-11-30'' = format ?lib (moment ?lib (get ?fm (dateProperty ?st))) (dateFormat ?st)
      \<and> lang (map token_piece (tokenize (dateFormat ?st))) ''2024-11-30''
      \<and> updateFilename ?lib ?st (Some ?fm) ?f = Inr (Some ''notes/Meeting 2024-11-30 notes.md'')"
    using fw v l u by (intro conjI)
  from mp [OF conjunct1 [OF rename_then_write] this] obtain newName where
    n: "replaceDateInFilename ?st (basename ?f) ''2024-11-30'' = Inr newName"
    and w: "updateFrontmatter ?lib ?st (?f\<lparr>basename := newName\<rparr>) ?fm
              = (if \<not> isValid ?lib (moment_strict ?lib ''2024-11-30'' (dateFormat ?st)) then Inr None
                 else if get ?fm (dateProperty ?st)
                         = formatFrontmatterDate ?lib ?st
                             (moment_strict ?lib ''2024-11-30'' (dateFormat ?st))
                 then Inr (Some ?fm)
                 else Inr (Some (?fm(dateProperty ?st \<mapsto>
                        formatFrontmatterDate ?lib ?st
                          (moment_strict ?lib ''2024-11-30'' (dateFormat ?st))))))"
    by (elim exE conjE)
  from n have "newName = ''Meeting 2024-11-30 notes''"
    by (simp add: replace_Meeting)
  with w have "updateFrontmatter ?lib ?st
     \<lparr>basename = ''Meeting 2024-11-30 notes'', extension = ''md'', parent = Some ''notes''\<rparr> ?fm
     = Inr (Some ?fm)"
    unfolding p d by (simp add: i get_def)
  moreover have "dateFormat ?st = ''YYYY-MM-DD''
      \<and> get ?fm (dateProperty ?st)
          = JStr (render (Valid \<lparr>year = 2024, month = 11, day = 30\<rparr>) ''YYYY-MM-DD'')
      \<and> valid_date \<lparr>year = 2024, month = 11, day = 30\<rparr>
      \<and> year \<lparr>year = 2024, month = 11, day = 30\<rparr> < 10000
      \<and> updateFilename ?lib ?st (Some ?fm) ?f = Inr (Some ''notes/Meeting 2024-11-30 notes.md'')"
    using u by (simp add: get_def library_eval)
  then have "\<exists>newName. replaceDateInFilename ?st (basename ?f)
                 (render (Valid \<lparr>year = 2024, month = 11, day = 30\<rparr>) ''YYYY-MM-DD'')
               = Inr newName
          \<and> newName \<noteq> basename ?f
          \<and> updateFrontmatter ?lib ?st (?f\<lparr>basename := newName\<rparr>) ?fm = Inr (Some ?fm)"
    by (rule mp [OF conjunct2 [OF rename_then_write]])
  ultimately show ?thesis using u by (intro conjI)
qed



end
